theory Spec2Isabelle
  imports Main "HOL-Library.List_Lexorder" "HOL-Library.Product_Lexorder"
begin

section \<open>Values, rows and frames\<close>

text \<open>
  The values that reach the reconciler come out of \<^verbatim>\<open>yaml.safe_load\<close> and out of the
  Bamboo client: nulls, booleans, strings, lists and dictionaries. A missing cell of a
  \<^verbatim>\<open>pandas\<close> frame (NaN) and a YAML null are both the null value \<open>YNull\<close>:
  \<^verbatim>\<open>merge\<close> treats every null key as equal to every other null key. Numbers are left
  out of the model: a Permission Record carries strings and one boolean.
\<close>

datatype yaml = YNull | YBool bool | YStr string | YSeq "yaml list" | YMap "(string \<times> yaml) list"

text \<open>A Python \<^verbatim>\<open>dict\<close> with string keys, in insertion order.\<close>

type_synonym entry = "(string \<times> yaml) list"

datatype domain =
  Global | BuildPlan | Project | Deployment | DeploymentProject | DeploymentEnvironment

datatype verb = Add | Remove

datatype error =
    YAMLError string
  | UnboundLocalError string
  | KeyError string
  | MergeError
  | ValueError
  | TypeError
  | FetchError domain
  | ApplyError verb domain "yaml list"

text \<open>\<^verbatim>\<open>row[k]\<close> on a dictionary raises \<^verbatim>\<open>KeyError\<close> when the key is absent.\<close>

definition getitem :: "('k \<times> 'v) list \<Rightarrow> 'k \<Rightarrow> ('k \<Rightarrow> error) \<Rightarrow> error + 'v" where
  "getitem d k err = (case map_of d k of None \<Rightarrow> Inl (err k) | Some v \<Rightarrow> Inr v)"

text \<open>The cell of a row under a column; NaN where the row has no such key.\<close>

definition get :: "entry \<Rightarrow> string \<Rightarrow> yaml" where
  "get r c = (case map_of r c of None \<Rightarrow> YNull | Some v \<Rightarrow> v)"

record frame =
  columns :: "string list"
  rows :: "entry list"

text \<open>
  \<^verbatim>\<open>pd.DataFrame(list_of_dicts)\<close>: the columns are the keys of the dictionaries in order
  of first appearance, every row gets a cell for every column, NaN where its
  dictionary has no such key. An empty list gives a frame with no column at all.
\<close>

definition first_seen :: "'a list \<Rightarrow> 'a list" where
  "first_seen xs = rev (remdups (rev xs))"

definition reindex :: "string list \<Rightarrow> entry \<Rightarrow> entry" where
  "reindex cs r = map (\<lambda>c. (c, get r c)) cs"

definition DataFrame :: "entry list \<Rightarrow> frame" where
  "DataFrame es =
     (let cs = first_seen (concat (map (map fst) es))
      in \<lparr>columns = cs, rows = map (reindex cs) es\<rparr>)"

text \<open>\<^verbatim>\<open>df.to_dict(orient='records')\<close>: one dictionary per row, keyed by column.\<close>

definition to_dict :: "frame \<Rightarrow> entry list" where
  "to_dict f = rows f"

section \<open>The outer merge with indicator\<close>

text \<open>
  \<^verbatim>\<open>left.merge(right, indicator=True, how='outer')\<close> with no \<^verbatim>\<open>on=\<close>: the join key is
  every column the two frames share. \<^verbatim>\<open>pandas\<close> raises \<^verbatim>\<open>MergeError\<close> when they
  share none, \<^verbatim>\<open>ValueError\<close> when a column has one of the indicator's names, and
  \<^verbatim>\<open>TypeError\<close> when a key cell is a list or a dictionary (unhashable). Rows whose
  keys are equal are paired (\<open>both\<close>); a left row with no partner is \<open>left_only\<close>, a
  right row with no partner is \<open>right_only\<close>. The result has the left columns, then
  the columns only the right frame has, then \<open>_merge\<close>.

  \<^verbatim>\<open>pandas\<close> orders the rows of an outer join by the join key,
  lexicographically over the key columns. Within a column booleans come first
  (\<open>False\<close> before \<open>True\<close>), then strings in the order of their characters, then
  nulls. Rows with equal keys keep the order in which the join produces them: the
  left rows in their order, each with its partners in the order of the right frame.
\<close>

definition hashable :: "yaml \<Rightarrow> bool" where
  "hashable v = (case v of YSeq _ \<Rightarrow> False | YMap _ \<Rightarrow> False | _ \<Rightarrow> True)"

definition join_keys :: "frame \<Rightarrow> frame \<Rightarrow> string list" where
  "join_keys l r = filter (\<lambda>c. c \<in> set (columns r)) (columns l)"

definition right_extra :: "frame \<Rightarrow> frame \<Rightarrow> string list" where
  "right_extra l r = filter (\<lambda>c. c \<notin> set (columns l)) (columns r)"

definition key_of :: "string list \<Rightarrow> entry \<Rightarrow> yaml list" where
  "key_of ks a = map (get a) ks"

definition indicator_names :: "string list" where
  "indicator_names = [''_left_indicator'', ''_right_indicator'', ''_merge'']"

definition both_row :: "frame \<Rightarrow> frame \<Rightarrow> entry \<Rightarrow> entry \<Rightarrow> entry" where
  "both_row l r a b =
     map (\<lambda>c. (c, get a c)) (columns l) @ map (\<lambda>c. (c, get b c)) (right_extra l r)
     @ [(''_merge'', YStr ''both'')]"

definition left_only_row :: "frame \<Rightarrow> frame \<Rightarrow> entry \<Rightarrow> entry" where
  "left_only_row l r a =
     map (\<lambda>c. (c, get a c)) (columns l) @ map (\<lambda>c. (c, YNull)) (right_extra l r)
     @ [(''_merge'', YStr ''left_only'')]"

definition right_only_row :: "frame \<Rightarrow> frame \<Rightarrow> entry \<Rightarrow> entry" where
  "right_only_row l r b =
     map (\<lambda>c. (c, if c \<in> set (join_keys l r) then get b c else YNull)) (columns l)
     @ map (\<lambda>c. (c, get b c)) (right_extra l r)
     @ [(''_merge'', YStr ''right_only'')]"

definition partners :: "string list \<Rightarrow> entry \<Rightarrow> entry list \<Rightarrow> entry list" where
  "partners ks a bs = filter (\<lambda>b. key_of ks b = key_of ks a) bs"

definition cell_rank :: "yaml \<Rightarrow> nat \<times> nat list" where
  "cell_rank v =
     (case v of YBool b \<Rightarrow> (0, [if b then 1 else 0])
              | YStr s \<Rightarrow> (1, map of_char s)
              | YNull \<Rightarrow> (2, [])
              | YSeq vs \<Rightarrow> (3, [])
              | YMap kvs \<Rightarrow> (3, []))"

definition sort_rows :: "string list \<Rightarrow> entry list \<Rightarrow> entry list" where
  "sort_rows ks = sort_key (\<lambda>row. map cell_rank (key_of ks row))"

definition merge :: "frame \<Rightarrow> frame \<Rightarrow> error + frame" where
  "merge l r =
     (let ks = join_keys l r in
      if ks = [] then Inl MergeError
      else if \<exists>c \<in> set (columns l @ columns r). c \<in> set indicator_names then Inl ValueError
      else if \<exists>a \<in> set (rows l @ rows r). \<exists>c \<in> set ks. \<not> hashable (get a c) then Inl TypeError
      else Inr \<lparr>columns = columns l @ right_extra l r @ [''_merge''],
                rows =
                  sort_rows ks
                    (concat (map (\<lambda>a. case partners ks a (rows r) of
                                        [] \<Rightarrow> [left_only_row l r a]
                                      | b # bs \<Rightarrow> map (both_row l r a) (b # bs)) (rows l))
                     @ map (right_only_row l r)
                         (filter (\<lambda>b. partners ks b (rows l) = []) (rows r)))\<rparr>)"

text \<open>The three selections \<^verbatim>\<open>df[df['_merge'] == ...]\<close>.\<close>

definition select_merge :: "string \<Rightarrow> frame \<Rightarrow> frame" where
  "select_merge tag m = m\<lparr>rows := filter (\<lambda>a. get a ''_merge'' = YStr tag) (rows m)\<rparr>"

section \<open>The world outside: the Bamboo server, the desired file, the console\<close>

text \<open>
  The Bamboo client is a collaborator of the program: the reconciler only calls it.
  The server behind it holds a store of grants per domain, one tuple of call
  arguments per grant. What a getter answers is left open: it is any function of the
  domain, of the grants the server holds for it and of what has happened so far, and
  it either raises or returns a list of dictionaries. For every grant or revoke call
  the world says whether it succeeds, returns a failure, or raises. The
  desired-permissions file is given by what \<^verbatim>\<open>yaml.safe_load\<close> does on it: it raises
  \<^verbatim>\<open>YAMLError\<close> on a document that is not well-formed, and returns the parsed
  document otherwise. The documents covered are those that parse to a mapping from
  keys to lists of dictionaries; a missing file and documents of another shape are
  outside the model. Every effect is appended to the trace.
\<close>

type_synonym document = "(string \<times> entry list) list"

datatype load = Malformed string | Parsed document

datatype reply = Succeeds | Fails | Raises

datatype event =
    Fetched domain
  | FetchFailed domain error
  | Called verb domain "yaml list"
  | Printed string
  | Wrote string

record world =
  granted :: "domain \<Rightarrow> yaml list list"
  getter :: "domain \<Rightarrow> yaml list list \<Rightarrow> event list \<Rightarrow> error + entry list"
  reply :: "verb \<Rightarrow> domain \<Rightarrow> yaml list \<Rightarrow> reply"
  desired_file :: load
  trace :: "event list"

text \<open>Computations that read and change the world and may raise.\<close>

type_synonym 'a io = "world \<Rightarrow> (error + 'a) \<times> world"

definition io_return :: "'a \<Rightarrow> 'a io" where
  "io_return x w = (Inr x, w)"

definition io_raise :: "error \<Rightarrow> 'a io" where
  "io_raise e w = (Inl e, w)"

definition io_bind :: "'a io \<Rightarrow> ('a \<Rightarrow> 'b io) \<Rightarrow> 'b io" where
  "io_bind m f w = (case m w of (Inl e, w') \<Rightarrow> (Inl e, w') | (Inr x, w') \<Rightarrow> f x w')"

definition io_lift :: "error + 'a \<Rightarrow> 'a io" where
  "io_lift r w = (r, w)"

definition emit :: "event \<Rightarrow> unit io" where
  "emit e w = (Inr (), w\<lparr>trace := trace w @ [e]\<rparr>)"

fun for_each :: "('a \<Rightarrow> unit io) \<Rightarrow> 'a list \<Rightarrow> unit io" where
  "for_each f [] = io_return ()"
| "for_each f (x # xs) = io_bind (f x) (\<lambda>_. for_each f xs)"

fun collect :: "('a \<Rightarrow> 'b io) \<Rightarrow> 'a list \<Rightarrow> 'b list io" where
  "collect f [] = io_return []"
| "collect f (x # xs) = io_bind (f x) (\<lambda>y. io_bind (collect f xs) (\<lambda>ys. io_return (y # ys)))"

fun first_error :: "(error + 'a) list \<Rightarrow> error + 'a list" where
  "first_error [] = Inr []"
| "first_error (Inl e # rs) = Inl e"
| "first_error (Inr x # rs) = (case first_error rs of Inl e \<Rightarrow> Inl e | Inr xs \<Rightarrow> Inr (x # xs))"

text \<open>The six domains, in the order of the tuples the program passes around.\<close>

definition domains :: "domain list" where
  "domains = [Global, BuildPlan, Project, Deployment, DeploymentProject, DeploymentEnvironment]"

text \<open>
  The keys a grant or revoke call reads from a row, in the order of the call's
  arguments (\<^verbatim>\<open>update_permissions\<close>, one line per domain and verb).
\<close>

fun call_keys :: "domain \<Rightarrow> string list" where
  "call_keys Global = [''permission'', ''type'', ''name'']"
| "call_keys BuildPlan = [''permission'', ''type'', ''name'', ''projectKey'', ''planKey'']"
| "call_keys Project = [''permission'', ''type'', ''name'', ''projectKey'']"
| "call_keys Deployment = [''permission'', ''type'', ''name'']"
| "call_keys DeploymentProject = [''permission'', ''type'', ''name'', ''projectKey'']"
| "call_keys DeploymentEnvironment =
     [''permission'', ''type'', ''name'', ''projectKey'', ''environmentId'']"

subsection \<open>The client\<close>

text \<open>
  \<^verbatim>\<open>bamboo_client.get_<domain>_permissions()\<close>: the getter's answer in the present
  world. The trace records whether the retrieval succeeded or raised.
\<close>

definition client_get :: "domain \<Rightarrow> entry list io" where
  "client_get d w =
     (case getter w d (granted w d) (trace w) of
        Inl e \<Rightarrow> (Inl e, w\<lparr>trace := trace w @ [FetchFailed d e]\<rparr>)
      | Inr es \<Rightarrow> (Inr es, w\<lparr>trace := trace w @ [Fetched d]\<rparr>))"

text \<open>
  \<^verbatim>\<open>bamboo_client.add_<domain>_permission(...)\<close> and \<^verbatim>\<open>remove_<domain>_permission(...)\<close>.
  A call that succeeds changes the store: a grant is held afterwards (once, however
  often it is granted), a revoked grant is not. A call that returns a failure or
  raises leaves the store as it is.
\<close>

definition store_apply :: "verb \<Rightarrow> yaml list \<Rightarrow> yaml list list \<Rightarrow> yaml list list" where
  "store_apply v args gs =
     (case v of Add \<Rightarrow> (if args \<in> set gs then gs else gs @ [args])
              | Remove \<Rightarrow> removeAll args gs)"

definition client_apply :: "verb \<Rightarrow> domain \<Rightarrow> yaml list \<Rightarrow> unit io" where
  "client_apply v d args =
     io_bind (emit (Called v d args)) (\<lambda>_ w.
       case reply w v d args of
         Raises \<Rightarrow> (Inl (ApplyError v d args), w)
       | Fails \<Rightarrow> (Inr (), w)
       | Succeeds \<Rightarrow> (Inr (), w\<lparr>granted := (granted w)(d := store_apply v args (granted w d))\<rparr>))"

section \<open>The collector (\<^verbatim>\<open>BambooAccess\<close>, main.py)\<close>

definition get_all_permissions :: "entry list list io" where
  "get_all_permissions = collect client_get domains"

definition get_all_permissions_df :: "frame list io" where
  "get_all_permissions_df = io_bind get_all_permissions (\<lambda>ps. io_return (map DataFrame ps))"

definition get_all_permissions_df_yaml :: "entry list list io" where
  "get_all_permissions_df_yaml =
     io_bind get_all_permissions_df (\<lambda>fs. io_return (map to_dict fs))"

definition write_all_permissions_df_yaml :: "string \<Rightarrow> entry list list io" where
  "write_all_permissions_df_yaml output_file =
     io_bind get_all_permissions_df_yaml (\<lambda>ys.
     io_bind (emit (Wrote output_file)) (\<lambda>_. io_return ys))"

section \<open>The reconciler (\<^verbatim>\<open>BambooAccessReconciler\<close>)\<close>

definition get_current_permissions :: "entry list list io" where
  "get_current_permissions = write_all_permissions_df_yaml ''current_permissions.yaml''"

text \<open>
  \<^verbatim>\<open>get_desired_permissions\<close> catches \<^verbatim>\<open>yaml.YAMLError\<close> and prints it; the
  \<^verbatim>\<open>return\<close> after the handler then reads a local variable that was never bound.
\<close>

definition get_desired_permissions :: "document io" where
  "get_desired_permissions w =
     (case desired_file w of
        Parsed doc \<Rightarrow> io_return doc w
      | Malformed exc \<Rightarrow>
          io_bind (emit (Printed exc))
            (\<lambda>_. io_raise (UnboundLocalError ''desired_permissions_df_yaml'')) w)"

definition get_current_permissions_df :: "frame list io" where
  "get_current_permissions_df =
     io_bind get_current_permissions (\<lambda>ys. io_return (map DataFrame ys))"

text \<open>The keys of the desired document, in the order the loader reads them.\<close>

fun domain_key :: "domain \<Rightarrow> string" where
  "domain_key Global = ''global_permissions''"
| "domain_key BuildPlan = ''build_plan_permissions''"
| "domain_key Project = ''project_permissions''"
| "domain_key Deployment = ''deployment_permissions''"
| "domain_key DeploymentProject = ''deployment_project_permissions''"
| "domain_key DeploymentEnvironment = ''deployment_environment_permissions''"

definition get_desired_permissions_df :: "frame list io" where
  "get_desired_permissions_df =
     io_bind get_desired_permissions (\<lambda>doc.
     io_bind (io_lift (first_error (map (\<lambda>d. getitem doc (domain_key d) KeyError) domains)))
       (\<lambda>ys. io_return (map DataFrame ys)))"

definition get_permissions_diff :: "frame list io" where
  "get_permissions_diff =
     io_bind get_current_permissions_df (\<lambda>current_permissions_df.
     io_bind get_desired_permissions_df (\<lambda>desired_permissions_df.
     io_lift (first_error (map2 merge current_permissions_df desired_permissions_df))))"

definition get_permissions_diff_df :: "frame list io" where
  "get_permissions_diff_df = get_permissions_diff"

definition get_permissions_diff_df_yaml :: "entry list list io" where
  "get_permissions_diff_df_yaml =
     io_bind get_permissions_diff_df (\<lambda>ms. io_return (map to_dict ms))"

definition write_permissions_diff_df_yaml :: "string \<Rightarrow> entry list list io" where
  "write_permissions_diff_df_yaml output_file =
     io_bind get_permissions_diff_df_yaml (\<lambda>ys.
     io_bind (emit (Wrote output_file)) (\<lambda>_. io_return ys))"

text \<open>
  One grant or revoke statement of \<^verbatim>\<open>update_permissions\<close>: the arguments are read
  from the row left to right, so the first absent key raises \<^verbatim>\<open>KeyError\<close> before the
  client is called.
\<close>

definition apply_row :: "verb \<Rightarrow> domain \<Rightarrow> entry \<Rightarrow> unit io" where
  "apply_row v d row =
     io_bind (io_lift (first_error (map (\<lambda>k. getitem row k KeyError) (call_keys d))))
       (client_apply v d)"

text \<open>
  \<^verbatim>\<open>update_permissions\<close>: the diff, the \<open>right_only\<close> and \<open>left_only\<close> rows of each
  domain, the six loops of grants, the six loops of revokes, and the twelve lists as
  result (the six added lists, then the six removed lists).
\<close>

definition update_permissions :: "(entry list list \<times> entry list list) io" where
  "update_permissions =
     io_bind get_permissions_diff_df (\<lambda>ms.
       let added = map (\<lambda>m. to_dict (select_merge ''right_only'' m)) ms;
           removed = map (\<lambda>m. to_dict (select_merge ''left_only'' m)) ms
       in io_bind (for_each (\<lambda>(d, rs). for_each (apply_row Add d) rs) (zip domains added)) (\<lambda>_.
          io_bind (for_each (\<lambda>(d, rs). for_each (apply_row Remove d) rs) (zip domains removed)) (\<lambda>_.
          io_return (added, removed))))"

definition write_permissions_diff_df_yaml_added :: "string \<Rightarrow> entry list list io" where
  "write_permissions_diff_df_yaml_added output_file =
     io_bind update_permissions (\<lambda>p.
     io_bind (emit (Wrote output_file)) (\<lambda>_. io_return (fst p)))"

definition write_permissions_diff_df_yaml_removed :: "string \<Rightarrow> entry list list io" where
  "write_permissions_diff_df_yaml_removed output_file =
     io_bind update_permissions (\<lambda>p.
     io_bind (emit (Wrote output_file)) (\<lambda>_. io_return (snd p)))"

text \<open>The main program of the reconciler.\<close>

definition main :: "entry list list io" where
  "main =
     io_bind (write_permissions_diff_df_yaml ''permissions_diff.yaml'') (\<lambda>_.
     io_bind (write_permissions_diff_df_yaml_added ''permissions_diff_added.yaml'') (\<lambda>_.
     write_permissions_diff_df_yaml_removed ''permissions_diff_removed.yaml''))"

section \<open>Notions used in the statements\<close>

text \<open>When \<^verbatim>\<open>merge\<close> returns a frame rather than raising.\<close>

definition mergeable :: "frame \<Rightarrow> frame \<Rightarrow> bool" where
  "mergeable l r \<longleftrightarrow>
     join_keys l r \<noteq> [] \<and>
     (\<forall>c \<in> set (columns l @ columns r). c \<notin> set indicator_names) \<and>
     (\<forall>a \<in> set (rows l @ rows r). \<forall>c \<in> set (join_keys l r). hashable (get a c))"

text \<open>The rows of one frame that have no partner in the other.\<close>

definition unmatched :: "string list \<Rightarrow> entry list \<Rightarrow> entry list \<Rightarrow> entry list" where
  "unmatched ks as bs = filter (\<lambda>a. partners ks a bs = []) as"

text \<open>The events a computation appends to the trace when run in a world.\<close>

definition effects :: "'a io \<Rightarrow> world \<Rightarrow> event list" where
  "effects m w = drop (length (trace w)) (trace (snd (m w)))"

fun is_grant :: "event \<Rightarrow> bool" where
  "is_grant (Called Add d a) = True"
| "is_grant e = False"

fun is_revoke :: "event \<Rightarrow> bool" where
  "is_revoke (Called Remove d a) = True"
| "is_revoke e = False"

definition is_call :: "event \<Rightarrow> bool" where
  "is_call e \<longleftrightarrow> is_grant e \<or> is_revoke e"

fun is_fetch :: "event \<Rightarrow> bool" where
  "is_fetch (Fetched d) = True"
| "is_fetch (FetchFailed d e) = True"
| "is_fetch e = False"

text \<open>
  A computation that leaves the switches of the world and the desired file alone and
  appends only events of one kind to the trace.
\<close>

definition emits :: "(event \<Rightarrow> bool) \<Rightarrow> 'a io \<Rightarrow> bool" where
  "emits P m \<longleftrightarrow>
     (\<forall>w. getter (snd (m w)) = getter w \<and> reply (snd (m w)) = reply w \<and>
          desired_file (snd (m w)) = desired_file w \<and>
          (\<exists>evs. trace (snd (m w)) = trace w @ evs \<and> list_all P evs))"

text \<open>
  The exception an event stands for: a retrieval that failed, or a grant or revoke
  call the client answers by raising.
\<close>

definition raised :: "world \<Rightarrow> event \<Rightarrow> error option" where
  "raised w ev =
     (case ev of
        FetchFailed d e \<Rightarrow> Some e
      | Called v d a \<Rightarrow> (if reply w v d a = Raises then Some (ApplyError v d a) else None)
      | Fetched d \<Rightarrow> None
      | Printed s \<Rightarrow> None
      | Wrote s \<Rightarrow> None)"

text \<open>The events that stand for no exception, whatever the world.\<close>

fun silent :: "event \<Rightarrow> bool" where
  "silent (Fetched d) = True"
| "silent (Printed s) = True"
| "silent (Wrote s) = True"
| "silent e = False"

text \<open>
  A computation in which an event that stands for an exception is the last thing that
  happens, and that exception is the result.
\<close>

definition stops_at_raise :: "'a io \<Rightarrow> bool" where
  "stops_at_raise m \<longleftrightarrow>
     (\<forall>w i e. i < length (effects m w) \<longrightarrow> raised w (effects m w ! i) = Some e \<longrightarrow>
        Suc i = length (effects m w) \<and> fst (m w) = Inl e)"


text \<open>
  A getter that never fails and reports exactly the grants the server holds, each as
  the dictionary of the arguments of the domain's calls.
\<close>

definition plain_getter :: "domain \<Rightarrow> yaml list list \<Rightarrow> event list \<Rightarrow> error + entry list" where
  "plain_getter d G tr = Inr (map (zip (call_keys d)) G)"

definition reports_call_arguments :: "world \<Rightarrow> bool" where
  "reports_call_arguments w \<longleftrightarrow> (\<forall>d G tr. getter w d G tr = plain_getter d G tr)"

text \<open>The current frame of a domain, as \<^verbatim>\<open>get_current_permissions_df\<close> builds it from the store.\<close>

definition store_frame :: "domain \<Rightarrow> yaml list list \<Rightarrow> frame" where
  "store_frame d G = DataFrame (to_dict (DataFrame (map (zip (call_keys d)) G)))"


text \<open>The world after a successful retrieval of the current permissions.\<close>

definition fetched_world :: "world \<Rightarrow> world" where
  "fetched_world w =
     w\<lparr>trace := trace w @ map Fetched domains @ [Wrote ''current_permissions.yaml'']\<rparr>"

text \<open>The world after one grant or revoke call that does not raise.\<close>

definition step :: "verb \<Rightarrow> domain \<Rightarrow> entry \<Rightarrow> world \<Rightarrow> world" where
  "step v d row w =
     (let a = key_of (call_keys d) row;
          w' = w\<lparr>trace := trace w @ [Called v d a]\<rparr>
      in if reply w v d a = Succeeds
         then w'\<lparr>granted := (granted w)(d := store_apply v a (granted w d))\<rparr>
         else w')"

text \<open>The world after the six loops of one verb, when no call raises.\<close>

definition phase :: "verb \<Rightarrow> (domain \<Rightarrow> entry list) \<Rightarrow> domain list \<Rightarrow> world \<Rightarrow> world" where
  "phase v X ds w = foldl (\<lambda>w d. foldl (\<lambda>w row. step v d row w) w (X d)) w ds"

text \<open>The calls one loop issues for the rows of a domain.\<close>

definition calls_of :: "verb \<Rightarrow> domain \<Rightarrow> entry list \<Rightarrow> event list" where
  "calls_of v d rs = map (\<lambda>row. Called v d (key_of (call_keys d) row)) rs"

text \<open>The added and the removed rows of a diff.\<close>

definition added_rows :: "frame \<Rightarrow> entry list" where
  "added_rows m = to_dict (select_merge ''right_only'' m)"

definition removed_rows :: "frame \<Rightarrow> entry list" where
  "removed_rows m = to_dict (select_merge ''left_only'' m)"

section \<open>Scenarios\<close>

text \<open>
  A grant of a permission to a user, with the scope qualifiers of the domain, as the
  tuple of call arguments and as the flat record a desired document lists.
\<close>

fun scope_of :: "domain \<Rightarrow> yaml list" where
  "scope_of Global = []"
| "scope_of BuildPlan = [YStr ''PROJECT-1'', YStr ''BUILD-PLAN-1'']"
| "scope_of Project = [YStr ''PROJECT-1'']"
| "scope_of Deployment = []"
| "scope_of DeploymentProject = [YStr ''PROJECT-1'']"
| "scope_of DeploymentEnvironment = [YStr ''PROJECT-1'', YStr ''ENV-1'']"

definition grant_of :: "string \<Rightarrow> string \<Rightarrow> domain \<Rightarrow> yaml list" where
  "grant_of p n d = [YStr p, YStr ''USER'', YStr n] @ scope_of d"

definition record_of :: "string \<Rightarrow> string \<Rightarrow> domain \<Rightarrow> entry" where
  "record_of p n d = zip (call_keys d) (grant_of p n d)"

text \<open>
  Scenario C of the specification in every domain: jdoe holds EDIT, the desired
  document lists VIEW for jdoe. Nothing fails.
\<close>

definition scenario_c :: world where
  "scenario_c =
     \<lparr>granted = (\<lambda>d. [grant_of ''EDIT'' ''jdoe'' d]),
      getter = plain_getter,
      reply = (\<lambda>v d a. Succeeds),
      desired_file = Parsed (map (\<lambda>d. (domain_key d, [record_of ''VIEW'' ''jdoe'' d])) domains),
      trace = []\<rparr>"

text \<open>
  Scenario B of the specification: as scenario C, but the desired document lists
  nothing for the build plans.
\<close>

definition scenario_b :: world where
  "scenario_b =
     scenario_c\<lparr>desired_file :=
       Parsed (map (\<lambda>d. (domain_key d,
                          if d = BuildPlan then [] else [record_of ''VIEW'' ''jdoe'' d])) domains)\<rparr>"

text \<open>Scenario D: the same, and retrieval fails for the deployment domain only.\<close>

definition scenario_d :: world where
  "scenario_d =
     scenario_c\<lparr>getter := (\<lambda>d G tr. if d = Deployment then Inl (FetchError Deployment)
                                      else plain_getter d G tr)\<rparr>"

text \<open>
  As scenario C, but retrieval fails for the global domain as soon as a grant or
  revoke call has been made.
\<close>

definition late_failure :: world where
  "late_failure =
     scenario_c\<lparr>getter := (\<lambda>d G tr. if d = Global \<and> list_ex is_call tr
                                      then Inl (FetchError Global) else plain_getter d G tr)\<rparr>"

text \<open>The same as scenario C, and the desired file is not well-formed YAML.\<close>

definition scenario_malformed :: world where
  "scenario_malformed = scenario_c\<lparr>desired_file := Malformed ''mapping values are not allowed here''\<rparr>"

text \<open>
  As scenario C, but the client answers the grant of the global domain by raising, or
  by returning a failure.
\<close>

definition global_grant_raises :: world where
  "global_grant_raises =
     scenario_c\<lparr>reply := (\<lambda>v d a. if v = Add \<and> d = Global then Raises else Succeeds)\<rparr>"

definition global_grant_fails :: world where
  "global_grant_fails =
     scenario_c\<lparr>reply := (\<lambda>v d a. if v = Add \<and> d = Global then Fails else Succeeds)\<rparr>"

text \<open>
  Two grants are due in every domain (VIEW and BUILD for jdoe, who holds EDIT); the
  client answers the grant of VIEW in the global domain by returning a failure.
\<close>

definition two_grants :: world where
  "two_grants =
     scenario_c\<lparr>desired_file :=
       Parsed (map (\<lambda>d. (domain_key d,
                          [record_of ''VIEW'' ''jdoe'' d, record_of ''BUILD'' ''jdoe'' d])) domains)\<rparr>"

definition first_grant_fails :: world where
  "first_grant_fails =
     two_grants\<lparr>reply := (\<lambda>v d a. if v = Add \<and> d = Global \<and> a = grant_of ''VIEW'' ''jdoe'' Global
                                  then Fails else Succeeds)\<rparr>"

text \<open>
  The desired document in the format the reconciler's module documents: a subject
  entry lists its permissions.
\<close>

definition documented_entry :: entry where
  "documented_entry =
     [(''name'', YStr ''admin''), (''permissions'', YSeq [YStr ''ADMINISTER'', YStr ''BUILD''])]"

definition documented_entries :: "domain \<Rightarrow> entry list" where
  "documented_entries d = (if d = Global then [documented_entry] else [])"

definition documented_format :: world where
  "documented_format =
     scenario_c\<lparr>desired_file :=
       Parsed (map (\<lambda>d. (domain_key d, documented_entries d)) domains)\<rparr>"

text \<open>
  A desired document whose global entries name both a user and a group, or neither.
\<close>

definition both_identities :: entry where
  "both_identities =
     [(''user'', YStr ''admin''), (''group'', YStr ''admins''), (''permission'', YStr ''VIEW''),
      (''value'', YBool True)]"

definition no_identity :: entry where
  "no_identity = [(''permission'', YStr ''BUILD''), (''value'', YBool True)]"

definition unvalidated_entries :: "domain \<Rightarrow> entry list" where
  "unvalidated_entries d = (if d = Global then [both_identities, no_identity] else [])"

definition unvalidated :: world where
  "unvalidated =
     scenario_c\<lparr>desired_file :=
       Parsed (map (\<lambda>d. (domain_key d, unvalidated_entries d)) domains)\<rparr>"




section \<open>Frames and merges: basic facts\<close>

lemma set_first_seen [simp]: "set (first_seen xs) = set xs"
  by (simp add: first_seen_def)

lemma distinct_first_seen [simp]: "distinct (first_seen xs)"
  by (simp add: first_seen_def)

lemma get_reindex: "get (reindex cs r) c = (if c \<in> set cs then get r c else YNull)"
  by (induction cs) (auto simp: reindex_def get_def)

lemma get_absent: "c \<notin> fst ` set r \<Longrightarrow> get r c = YNull"
  by (simp add: get_def map_of_eq_None_iff[THEN iffD2])

lemma get_tabulate:
  "get (map (\<lambda>c. (c, f c)) cs @ rest) c = (if c \<in> set cs then f c else get rest c)"
  by (induction cs) (auto simp: get_def)

lemma get_Cons: "get ((k, v) # rest) c = (if c = k then v else get rest c)"
  by (simp add: get_def)

lemma get_Nil: "get [] c = YNull"
  by (simp add: get_def)

lemma columns_DataFrame: "set (columns (DataFrame es)) = (\<Union>e \<in> set es. fst ` set e)"
  by (auto simp: DataFrame_def Let_def)

lemma DataFrame_Nil [simp]: "DataFrame [] = \<lparr>columns = [], rows = []\<rparr>"
  by (simp add: DataFrame_def first_seen_def)

lemma join_keys_Nil [simp]:
  "join_keys l \<lparr>columns = [], rows = rs\<rparr> = []"
  "join_keys \<lparr>columns = [], rows = rs\<rparr> r = []"
  by (simp_all add: join_keys_def)

lemma DataFrame_cell:
  assumes "i < length es"
  shows "get (rows (DataFrame es) ! i) c = get (es ! i) c"
proof (cases "c \<in> set (columns (DataFrame es))")
  case True
  then show ?thesis using assms by (simp add: DataFrame_def Let_def get_reindex)
next
  case False
  then have "c \<notin> fst ` set (es ! i)" using assms by (auto simp: columns_DataFrame)
  then have "get (es ! i) c = YNull" by (rule get_absent)
  with False show ?thesis using assms by (simp add: DataFrame_def Let_def get_reindex)
qed

lemma merge_Inr: "merge l r = Inr m \<Longrightarrow> mergeable l r"
  by (auto simp: merge_def mergeable_def Let_def split: if_splits)

lemma mergeable_merge: "mergeable l r \<Longrightarrow> \<exists>m. merge l r = Inr m"
  by (auto simp: merge_def mergeable_def Let_def)

lemma tag_not_column:
  assumes "mergeable l r"
  shows "''_merge'' \<notin> set (columns l)" "''_merge'' \<notin> set (right_extra l r)"
  using assms by (auto simp: mergeable_def indicator_names_def right_extra_def)

lemma tag_left_only:
  "mergeable l r \<Longrightarrow> get (left_only_row l r a) ''_merge'' = YStr ''left_only''"
  using tag_not_column[of l r]
  by (simp add: left_only_row_def get_tabulate get_Cons)

lemma tag_right_only:
  "mergeable l r \<Longrightarrow> get (right_only_row l r a) ''_merge'' = YStr ''right_only''"
  using tag_not_column[of l r]
  by (simp add: right_only_row_def get_tabulate get_Cons)

lemma tag_both: "mergeable l r \<Longrightarrow> get (both_row l r a b) ''_merge'' = YStr ''both''"
  using tag_not_column[of l r]
  by (simp add: both_row_def get_tabulate get_Cons)

lemma filter_concat_map: "filter P (concat (map f xs)) = concat (map (\<lambda>x. filter P (f x)) xs)"
  by (induction xs) auto

lemma concat_map_if_single:
  "concat (map (\<lambda>x. if Q x then [g x] else []) xs) = map g (filter Q xs)"
  by (induction xs) auto

lemma concat_map_Nil: "concat (map (\<lambda>x. []) xs) = []"
  by (induction xs) auto

lemma set_sort_rows [simp]: "set (sort_rows ks xs) = set xs"
  by (simp add: sort_rows_def)

lemma sort_rows_Nil [simp]: "sort_rows ks [] = []"
  by (simp add: sort_rows_def)

lemma filter_sort_rows: "filter P (sort_rows ks xs) = sort_rows ks (filter P xs)"
  by (simp add: sort_rows_def filter_sort)

lemma rows_merge:
  assumes "merge l r = Inr m"
  shows "rows m =
           sort_rows (join_keys l r)
             (concat (map (\<lambda>a. case partners (join_keys l r) a (rows r) of
                                 [] \<Rightarrow> [left_only_row l r a]
                               | b # bs \<Rightarrow> map (both_row l r a) (b # bs)) (rows l))
              @ map (right_only_row l r) (unmatched (join_keys l r) (rows r) (rows l)))"
  using assms by (auto simp: merge_def Let_def unmatched_def split: if_splits)

lemma select_left_only:
  assumes "merge l r = Inr m"
  shows "rows (select_merge ''left_only'' m)
         = sort_rows (join_keys l r)
             (map (left_only_row l r) (unmatched (join_keys l r) (rows l) (rows r)))"
proof -
  have mg: "mergeable l r" using assms by (rule merge_Inr)
  have 1: "filter (\<lambda>a. get a ''_merge'' = YStr ''left_only'')
             (case partners (join_keys l r) a (rows r) of
                [] \<Rightarrow> [left_only_row l r a]
              | b # bs \<Rightarrow> map (both_row l r a) (b # bs))
          = (if partners (join_keys l r) a (rows r) = [] then [left_only_row l r a] else [])" for a
    using mg by (simp add: tag_left_only tag_both filter_map comp_def split: list.splits)
  have 2: "filter (\<lambda>a. get a ''_merge'' = YStr ''left_only'') (map (right_only_row l r) bs) = []"
    for bs using mg by (simp add: filter_map comp_def tag_right_only)
  show ?thesis
    by (simp add: select_merge_def rows_merge[OF assms] filter_sort_rows filter_concat_map 1 2
        concat_map_if_single unmatched_def)
qed

lemma select_right_only:
  assumes "merge l r = Inr m"
  shows "rows (select_merge ''right_only'' m)
         = sort_rows (join_keys l r)
             (map (right_only_row l r) (unmatched (join_keys l r) (rows r) (rows l)))"
proof -
  have mg: "mergeable l r" using assms by (rule merge_Inr)
  have 1: "filter (\<lambda>a. get a ''_merge'' = YStr ''right_only'')
             (case partners (join_keys l r) a (rows r) of
                [] \<Rightarrow> [left_only_row l r a]
              | b # bs \<Rightarrow> map (both_row l r a) (b # bs))
          = []" for a
    using mg by (simp add: tag_left_only tag_both filter_map comp_def split: list.splits)
  have 2: "filter (\<lambda>a. get a ''_merge'' = YStr ''right_only'') (map (right_only_row l r) bs)
           = map (right_only_row l r) bs" for bs
    using mg by (simp add: filter_map comp_def tag_right_only)
  show ?thesis
    by (simp add: select_merge_def rows_merge[OF assms] filter_sort_rows filter_concat_map 1 2
        concat_map_Nil)
qed

lemma select_both:
  assumes "merge l r = Inr m"
  shows "rows (select_merge ''both'' m)
         = sort_rows (join_keys l r)
             (concat (map (\<lambda>a. map (both_row l r a) (partners (join_keys l r) a (rows r)))
                (rows l)))"
proof -
  have mg: "mergeable l r" using assms by (rule merge_Inr)
  have 1: "filter (\<lambda>a. get a ''_merge'' = YStr ''both'')
             (case partners (join_keys l r) a (rows r) of
                [] \<Rightarrow> [left_only_row l r a]
              | b # bs \<Rightarrow> map (both_row l r a) (b # bs))
          = map (both_row l r a) (partners (join_keys l r) a (rows r))" for a
    using mg by (simp add: tag_left_only tag_both filter_map comp_def split: list.splits)
  have 2: "filter (\<lambda>a. get a ''_merge'' = YStr ''both'') (map (right_only_row l r) bs) = []"
    for bs using mg by (simp add: filter_map comp_def tag_right_only)
  show ?thesis
    by (simp add: select_merge_def rows_merge[OF assms] filter_sort_rows filter_concat_map 1 2)
qed

section \<open>Computations: basic facts\<close>

lemma io_bind_Inl: "m w = (Inl e, w') \<Longrightarrow> io_bind m f w = (Inl e, w')"
  by (simp add: io_bind_def)


lemma io_bind_cases:
  obtains (stop) e w' where "m w = (Inl e, w')" "io_bind m f w = (Inl e, w')"
        | (go) x w' where "m w = (Inr x, w')" "io_bind m f w = f x w'"
proof (cases "m w")
  case (Pair r w')
  then show ?thesis
    by (cases r) (auto intro: stop go simp: io_bind_def)
qed

lemma io_bind_InrE:
  assumes "io_bind m f w = (Inr y, w'')"
  obtains x w' where "m w = (Inr x, w')" "f x w' = (Inr y, w'')"
  using assms by (cases rule: io_bind_cases[of m w f]) auto

lemma emits_return [simp]: "emits P (io_return x)"
  by (simp add: emits_def io_return_def)

lemma emits_raise [simp]: "emits P (io_raise e)"
  by (simp add: emits_def io_raise_def)

lemma emits_lift [simp]: "emits P (io_lift r)"
  by (simp add: emits_def io_lift_def)

lemma emits_emit: "P e \<Longrightarrow> emits P (emit e)"
  by (simp add: emits_def emit_def)

lemma emits_bind:
  assumes "emits P m" and "\<And>x. emits P (f x)"
  shows "emits P (io_bind m f)"
  unfolding emits_def
proof
  fix w
  from assms(1) obtain evs where m: "getter (snd (m w)) = getter w"
      "reply (snd (m w)) = reply w" "desired_file (snd (m w)) = desired_file w"
      "trace (snd (m w)) = trace w @ evs" "list_all P evs"
    unfolding emits_def by blast
  show "getter (snd (io_bind m f w)) = getter w \<and>
         reply (snd (io_bind m f w)) = reply w \<and>
         desired_file (snd (io_bind m f w)) = desired_file w \<and>
         (\<exists>evs. trace (snd (io_bind m f w)) = trace w @ evs \<and> list_all P evs)"
  proof (cases rule: io_bind_cases[of m w f])
    case (stop e w')
    with m show ?thesis by auto
  next
    case (go x w')
    from assms(2)[of x] obtain evs' where f: "getter (snd (f x w')) = getter w'"
      "reply (snd (f x w')) = reply w'" "desired_file (snd (f x w')) = desired_file w'"
      "trace (snd (f x w')) = trace w' @ evs'" "list_all P evs'"
      unfolding emits_def by blast
    from go m f show ?thesis by auto
  qed
qed

lemma emits_mono: "emits P m \<Longrightarrow> (\<And>e. P e \<Longrightarrow> Q e) \<Longrightarrow> emits Q m"
  unfolding emits_def list_all_iff by blast

lemma emits_for_each: "(\<And>x. emits P (f x)) \<Longrightarrow> emits P (for_each f xs)"
  by (induction xs) (auto intro: emits_bind)

lemma emits_collect: "(\<And>x. emits P (f x)) \<Longrightarrow> emits P (collect f xs)"
  by (induction xs) (auto intro!: emits_bind)

lemma emits_effects:
  assumes "emits P m"
  shows "trace (snd (m w)) = trace w @ effects m w" and "list_all P (effects m w)"
  using assms unfolding emits_def effects_def by (metis append_eq_conv_conj)+

lemma emits_client_get: "emits is_fetch (client_get d)"
  by (auto simp: emits_def client_get_def split: sum.splits)

lemma emits_client_apply: "emits (\<lambda>e. e = Called v d a) (client_apply v d a)"
  unfolding client_apply_def
  by (rule emits_bind) (auto simp: emits_def emit_def split: reply.splits)

lemma emits_apply_row: "emits (\<lambda>e. \<exists>a. e = Called v d a) (apply_row v d row)"
  unfolding apply_row_def
  by (rule emits_bind) (auto intro: emits_mono[OF emits_client_apply])

lemma effects_bind:
  assumes "emits P m" and "\<And>x. emits Q (f x)"
  shows "effects (io_bind m f) w =
           effects m w @ (case m w of (Inr x, w') \<Rightarrow> effects (f x) w' | (Inl e, w') \<Rightarrow> [])"
proof (cases rule: io_bind_cases[of m w f])
  case (stop e w')
  then show ?thesis by (simp add: effects_def)
next
  case (go x w')
  from assms(1) obtain e1 where 1: "trace (snd (m w)) = trace w @ e1"
    unfolding emits_def by blast
  from assms(2)[of x] obtain e2 where 2: "trace (snd (f x w')) = trace w' @ e2"
    unfolding emits_def by blast
  show ?thesis
    using go 1 2 by (simp add: effects_def)
qed

lemma domain_in_domains [simp]: "d \<in> set domains"
  by (cases d) (simp_all add: domains_def)

lemma first_error_map_Inr:
  "(\<forall>x \<in> set xs. f x = Inr (g x)) \<Longrightarrow> first_error (map f xs) = Inr (map g xs)"
  by (induction xs) auto

lemma unmatched_iff:
  "a \<in> set (unmatched ks as bs) \<longleftrightarrow> a \<in> set as \<and> (\<forall>b \<in> set bs. key_of ks b \<noteq> key_of ks a)"
  by (auto simp: unmatched_def partners_def filter_empty_conv)


lemma not_call_simps [simp]:
  "\<not> is_call (Fetched d)" "\<not> is_call (FetchFailed d e)" "\<not> is_call (Printed s)"
  "\<not> is_call (Wrote s)" "is_call (Called v d a)"
  by (cases v; simp add: is_call_def)+

lemma raised_silent: "silent ev \<Longrightarrow> raised w ev = None"
  by (cases ev) (simp_all add: raised_def)

lemma raised_cong: "reply w' = reply w \<Longrightarrow> raised w' ev = raised w ev"
  by (cases ev) (simp_all add: raised_def)

lemma emits_any: "emits P m \<Longrightarrow> emits (\<lambda>e. True) m"
  by (erule emits_mono) simp

lemma stops_silent:
  assumes "emits silent m"
  shows "stops_at_raise m"
  unfolding stops_at_raise_def
proof (intro allI impI)
  fix w i e
  assume i: "i < length (effects m w)" and c: "raised w (effects m w ! i) = Some e"
  have "\<forall>n < length (effects m w). silent (effects m w ! n)"
    using emits_effects(2)[OF assms, of w] by (simp add: list_all_length)
  with i have "raised w (effects m w ! i) = None" by (simp add: raised_silent)
  with c show "Suc i = length (effects m w) \<and> fst (m w) = Inl e" by simp
qed

lemma stops_bind:
  assumes em: "emits P m" and ef: "\<And>x. emits Q (f x)"
    and sm: "stops_at_raise m" and sf: "\<And>x. stops_at_raise (f x)"
  shows "stops_at_raise (io_bind m f)"
  unfolding stops_at_raise_def
proof (intro allI impI)
  fix w i e
  assume i: "i < length (effects (io_bind m f) w)"
    and c: "raised w (effects (io_bind m f) w ! i) = Some e"
  have eb: "effects (io_bind m f) w =
           effects m w @ (case m w of (Inr x, w') \<Rightarrow> effects (f x) w' | (Inl e, w') \<Rightarrow> [])"
    by (rule effects_bind[OF em ef])
  show "Suc i = length (effects (io_bind m f) w) \<and> fst (io_bind m f w) = Inl e"
  proof (cases rule: io_bind_cases[of m w f])
    case (stop e' w')
    with eb have e: "effects (io_bind m f) w = effects m w" by simp
    from sm i c have "Suc i = length (effects m w) \<and> fst (m w) = Inl e"
      unfolding stops_at_raise_def e by blast
    with stop e show ?thesis by simp
  next
    case (go x w')
    with eb have e: "effects (io_bind m f) w = effects m w @ effects (f x) w'" by simp
    have "reply (snd (m w)) = reply w" using em unfolding emits_def by blast
    with go(1) have rw: "reply w' = reply w" by simp
    show ?thesis
    proof (cases "i < length (effects m w)")
      case True
      with c e have "raised w (effects m w ! i) = Some e" by (simp add: nth_append)
      with True sm have "fst (m w) = Inl e"
        unfolding stops_at_raise_def by blast
      with go(1) show ?thesis by simp
    next
      case False
      let ?j = "i - length (effects m w)"
      from False i e have j: "?j < length (effects (f x) w')" by simp
      from False c e have "raised w (effects (f x) w' ! ?j) = Some e" by (simp add: nth_append)
      then have "raised w' (effects (f x) w' ! ?j) = Some e"
        by (simp add: raised_cong[OF rw])
      then have "Suc ?j = length (effects (f x) w') \<and> fst (f x w') = Inl e"
        using j sf[of x] unfolding stops_at_raise_def by blast
      with False e go(2) show ?thesis by auto
    qed
  qed
qed

lemma stops_for_each:
  assumes "\<And>x. emits P (f x)" "\<And>x. stops_at_raise (f x)"
  shows "stops_at_raise (for_each f xs)"
proof (induction xs)
  case Nil
  show ?case by (simp add: stops_silent)
next
  case (Cons x xs)
  show ?case
    by (simp, rule stops_bind[OF assms(1) emits_for_each[of P f] assms(2) Cons.IH]) (rule assms(1))
qed

lemma stops_collect:
  assumes "\<And>x. emits P (f x)" "\<And>x. stops_at_raise (f x)"
  shows "stops_at_raise (collect f xs)"
proof (induction xs)
  case Nil
  show ?case by (simp add: stops_silent)
next
  case (Cons x xs)
  have s: "stops_at_raise (io_bind (collect f xs) (\<lambda>ys. io_return (y # ys)))" for y
    by (rule stops_bind[OF emits_collect[of P f] emits_return[of P] Cons.IH])
       (simp_all add: assms(1) stops_silent)
  have e: "emits P (io_bind (collect f xs) (\<lambda>ys. io_return (y # ys)))" for y
    by (intro emits_bind emits_collect emits_return assms(1))
  have "stops_at_raise
      (io_bind (f x) (\<lambda>y. io_bind (collect f xs) (\<lambda>ys. io_return (y # ys))))"
    by (rule stops_bind[where P = P and Q = P, OF assms(1) e assms(2) s])
  then show ?case by simp
qed

lemma effects_client_apply [simp]: "effects (client_apply v d a) w = [Called v d a]"
  by (simp add: effects_def client_apply_def io_bind_def emit_def split: reply.splits)

lemma stops_client_apply: "stops_at_raise (client_apply v d a)"
  by (auto simp: stops_at_raise_def raised_def split: if_splits)
     (simp add: client_apply_def io_bind_def emit_def)

lemma stops_client_get: "stops_at_raise (client_get d)"
  by (auto simp: stops_at_raise_def effects_def client_get_def raised_def split: sum.splits)

lemma emits_client_apply_call: "emits is_call (client_apply v d a)"
  by (rule emits_mono[OF emits_client_apply]) simp

lemma stops_apply_row: "stops_at_raise (apply_row v d row)"
  unfolding apply_row_def
proof (rule stops_bind[where P = silent and Q = is_call])
  show "emits silent
          (io_lift (first_error (map (\<lambda>k. getitem row k KeyError) (call_keys d))))"
    by (rule emits_lift)
  then show "stops_at_raise
          (io_lift (first_error (map (\<lambda>k. getitem row k KeyError) (call_keys d))))"
    by (rule stops_silent)
  show "emits is_call (client_apply v d a)" for a
    by (rule emits_client_apply_call)
  show "stops_at_raise (client_apply v d a)" for a
    by (rule stops_client_apply)
qed

lemma emits_get_all_permissions: "emits (\<lambda>e. \<not> is_call e) get_all_permissions"
  unfolding get_all_permissions_def
  by (rule emits_collect, rule emits_mono[OF emits_client_get]) (auto elim: is_fetch.elims)

lemma emits_get_current_permissions_df: "emits (\<lambda>e. \<not> is_call e) get_current_permissions_df"
  unfolding get_current_permissions_df_def get_current_permissions_def
    write_all_permissions_df_yaml_def get_all_permissions_df_yaml_def get_all_permissions_df_def
  by (intro emits_bind emits_get_all_permissions emits_return emits_emit) simp

lemma emits_get_desired_permissions: "emits (\<lambda>e. \<not> is_call e) get_desired_permissions"
  by (auto simp: emits_def get_desired_permissions_def io_return_def io_bind_def emit_def
      io_raise_def split: load.splits)

lemma emits_get_desired_permissions_df: "emits (\<lambda>e. \<not> is_call e) get_desired_permissions_df"
  unfolding get_desired_permissions_df_def
  by (intro emits_bind emits_get_desired_permissions emits_return emits_lift)

lemma emits_get_permissions_diff_df: "emits (\<lambda>e. \<not> is_call e) get_permissions_diff_df"
  unfolding get_permissions_diff_df_def get_permissions_diff_def
  by (intro emits_bind emits_get_current_permissions_df emits_get_desired_permissions_df
      emits_lift)

lemma emits_add_loops:
  "emits is_grant (for_each (\<lambda>(d, rs). for_each (apply_row Add d) rs) xs)"
  by (rule emits_for_each) (auto intro!: emits_for_each emits_mono[OF emits_apply_row])

lemma emits_remove_loops:
  "emits is_revoke (for_each (\<lambda>(d, rs). for_each (apply_row Remove d) rs) xs)"
  by (rule emits_for_each) (auto intro!: emits_for_each emits_mono[OF emits_apply_row])

lemma effects_return [simp]: "effects (io_return x) w = []"
  by (simp add: effects_def io_return_def)

lemma emits_apply_row_call: "emits is_call (apply_row v d row)"
  by (rule emits_mono[OF emits_apply_row]) auto

lemma stops_loops:
  "stops_at_raise (for_each (\<lambda>(d, rs). for_each (apply_row v d) rs) xs)"
proof (rule stops_for_each[where P = is_call])
  fix x :: "domain \<times> entry list"
  show "emits is_call (case x of (d, rs) \<Rightarrow> for_each (apply_row v d) rs)"
    by (cases x) (simp add: emits_for_each emits_apply_row_call)
  show "stops_at_raise (case x of (d, rs) \<Rightarrow> for_each (apply_row v d) rs)"
    by (cases x) (simp add: stops_for_each[where P = is_call] emits_apply_row_call stops_apply_row)
qed

lemma emits_loops:
  "emits is_call (for_each (\<lambda>(d, rs). for_each (apply_row v d) rs) xs)"
  by (rule emits_for_each) (auto intro!: emits_for_each emits_apply_row_call)

lemma stops_get_all_permissions: "stops_at_raise get_all_permissions"
  unfolding get_all_permissions_def
  by (rule stops_collect[where P = is_fetch]) (simp_all add: emits_client_get stops_client_get)

lemma stops_get_current_permissions_df: "stops_at_raise get_current_permissions_df"
  unfolding get_current_permissions_df_def get_current_permissions_def
    write_all_permissions_df_yaml_def get_all_permissions_df_yaml_def get_all_permissions_df_def
  by (intro stops_bind[where P = "\<lambda>e. True" and Q = "\<lambda>e. True"] stops_get_all_permissions
      emits_any[OF emits_get_all_permissions] emits_bind emits_return emits_emit
      stops_silent[OF emits_return] stops_silent[OF emits_emit]) simp_all

lemma emits_silent_get_desired_permissions_df: "emits silent get_desired_permissions_df"
  unfolding get_desired_permissions_df_def
  by (intro emits_bind emits_return emits_lift)
     (auto simp: emits_def get_desired_permissions_def io_return_def io_bind_def emit_def
      io_raise_def split: load.splits)

lemma stops_get_permissions_diff_df: "stops_at_raise get_permissions_diff_df"
  unfolding get_permissions_diff_df_def get_permissions_diff_def
  by (intro stops_bind[where P = "\<lambda>e. True" and Q = "\<lambda>e. True"]
      stops_get_current_permissions_df stops_silent[OF emits_silent_get_desired_permissions_df]
      stops_silent[OF emits_lift] emits_any[OF emits_get_current_permissions_df]
      emits_any[OF emits_get_desired_permissions_df] emits_bind emits_lift)

lemma stops_update_permissions: "stops_at_raise update_permissions"
  unfolding update_permissions_def Let_def
  by (intro stops_bind[where P = "\<lambda>e. True" and Q = "\<lambda>e. True"] stops_loops
      stops_get_permissions_diff_df stops_silent[OF emits_return]
      emits_any[OF emits_get_permissions_diff_df] emits_any[OF emits_loops] emits_bind
      emits_return)

lemma emits_update_permissions: "emits (\<lambda>e. True) update_permissions"
  unfolding update_permissions_def Let_def
  by (intro emits_bind emits_any[OF emits_get_permissions_diff_df] emits_any[OF emits_loops]
      emits_return)

lemma stops_main: "stops_at_raise main"
  unfolding main_def write_permissions_diff_df_yaml_def get_permissions_diff_df_yaml_def
    write_permissions_diff_df_yaml_added_def write_permissions_diff_df_yaml_removed_def
  by (intro stops_bind[where P = "\<lambda>e. True" and Q = "\<lambda>e. True"]
      stops_get_permissions_diff_df stops_update_permissions
      emits_any[OF emits_get_permissions_diff_df] emits_update_permissions emits_bind
      emits_return emits_emit stops_silent[OF emits_return] stops_silent[OF emits_emit])
     simp_all

lemma stops_write_permissions_diff_df_yaml:
  "stops_at_raise (write_permissions_diff_df_yaml output_file)"
  unfolding write_permissions_diff_df_yaml_def get_permissions_diff_df_yaml_def
  by (intro stops_bind[where P = "\<lambda>e. True" and Q = "\<lambda>e. True"]
      stops_get_permissions_diff_df emits_any[OF emits_get_permissions_diff_df] emits_bind
      emits_return emits_emit stops_silent[OF emits_return] stops_silent[OF emits_emit])
     simp_all

text \<open>A retrieval either returns, or stops at the first getter that raises.\<close>

lemma collect_client_get_cases:
  "(\<exists>ys. collect client_get ds w = (Inr ys, w\<lparr>trace := trace w @ map Fetched ds\<rparr>)) \<or>
   (\<exists>before d e after. ds = before @ d # after \<and>
      collect client_get ds w
        = (Inl e, w\<lparr>trace := trace w @ map Fetched before @ [FetchFailed d e]\<rparr>))"
proof (induction ds arbitrary: w)
  case Nil
  then show ?case by (simp add: io_return_def)
next
  case (Cons x xs)
  show ?case
  proof (cases "getter w x (granted w x) (trace w)")
    case (Inl e)
    then have "collect client_get (x # xs) w
        = (Inl e, w\<lparr>trace := trace w @ map Fetched [] @ [FetchFailed x e]\<rparr>)"
      by (simp add: client_get_def io_bind_def)
    moreover have "x # xs = [] @ x # xs" by simp
    ultimately show ?thesis by blast
  next
    case (Inr es)
    let ?w = "w\<lparr>trace := trace w @ [Fetched x]\<rparr>"
    have c: "client_get x w = (Inr es, ?w)" using Inr by (simp add: client_get_def)
    from Cons.IH[of ?w] show ?thesis
    proof
      assume "\<exists>ys. collect client_get xs ?w = (Inr ys, ?w\<lparr>trace := trace ?w @ map Fetched xs\<rparr>)"
      then obtain ys where
        "collect client_get xs ?w = (Inr ys, ?w\<lparr>trace := trace ?w @ map Fetched xs\<rparr>)" ..
      with c have "collect client_get (x # xs) w
                   = (Inr (es # ys), w\<lparr>trace := trace w @ map Fetched (x # xs)\<rparr>)"
        by (simp add: io_bind_def io_return_def)
      then show ?thesis by blast
    next
      assume "\<exists>before d e after. xs = before @ d # after \<and> collect client_get xs ?w
          = (Inl e, ?w\<lparr>trace := trace ?w @ map Fetched before @ [FetchFailed d e]\<rparr>)"
      then obtain before d e after where b: "xs = before @ d # after"
        and "collect client_get xs ?w
          = (Inl e, ?w\<lparr>trace := trace ?w @ map Fetched before @ [FetchFailed d e]\<rparr>)"
        by blast
      with c have "collect client_get (x # xs) w
          = (Inl e, w\<lparr>trace := trace w @ map Fetched (x # before) @ [FetchFailed d e]\<rparr>)"
        by (simp add: io_bind_def)
      moreover from b have "x # xs = (x # before) @ d # after" by simp
      ultimately show ?thesis by blast
    qed
  qed
qed

lemma io_bind_assoc: "io_bind (io_bind m f) g = io_bind m (\<lambda>x. io_bind (f x) g)"
  by (rule ext) (simp add: io_bind_def split: prod.splits sum.splits)

lemma emits_plain_get_desired_permissions_df:
  "emits (\<lambda>e. \<not> is_fetch e) get_desired_permissions_df"
  unfolding get_desired_permissions_df_def
  by (intro emits_bind emits_return emits_lift)
     (auto simp: emits_def get_desired_permissions_def io_return_def io_bind_def emit_def
      io_raise_def split: load.splits)

lemma emits_plain_loops:
  "emits (\<lambda>e. \<not> is_fetch e) (for_each (\<lambda>(d, rs). for_each (apply_row v d) rs) xs)"
  by (rule emits_mono[OF emits_loops]) (auto simp: is_call_def elim: is_grant.elims is_revoke.elims)

text \<open>
  A pass that begins with the retrieval of the current permissions and retrieves
  nothing afterwards: if a getter raises in it, the pass has retrieved the domains
  before that one and done nothing else, and the getter's exception is its result.
\<close>

lemma retrieval_cases:
  "(\<exists>cs. get_current_permissions_df w = (Inr cs, fetched_world w)) \<or>
   (\<exists>before d e after. domains = before @ d # after \<and>
      get_current_permissions_df w
        = (Inl e, w\<lparr>trace := trace w @ map Fetched before @ [FetchFailed d e]\<rparr>))"
  using collect_client_get_cases[of domains w]
proof
  assume "\<exists>ys. collect client_get domains w
            = (Inr ys, w\<lparr>trace := trace w @ map Fetched domains\<rparr>)"
  then have "\<exists>cs. get_current_permissions_df w = (Inr cs, fetched_world w)"
    by (auto simp: get_current_permissions_df_def get_current_permissions_def
        write_all_permissions_df_yaml_def get_all_permissions_df_yaml_def
        get_all_permissions_df_def get_all_permissions_def io_bind_def io_return_def emit_def
        fetched_world_def)
  then show ?thesis ..
next
  assume "\<exists>before d e after. domains = before @ d # after \<and>
      collect client_get domains w
        = (Inl e, w\<lparr>trace := trace w @ map Fetched before @ [FetchFailed d e]\<rparr>)"
  then obtain before d e after where "domains = before @ d # after"
    and "collect client_get domains w
        = (Inl e, w\<lparr>trace := trace w @ map Fetched before @ [FetchFailed d e]\<rparr>)"
    by blast
  then have "domains = before @ d # after \<and> get_current_permissions_df w
        = (Inl e, w\<lparr>trace := trace w @ map Fetched before @ [FetchFailed d e]\<rparr>)"
    by (simp add: get_current_permissions_df_def get_current_permissions_def
        write_all_permissions_df_yaml_def get_all_permissions_df_yaml_def
        get_all_permissions_df_def get_all_permissions_def io_bind_def)
  then show ?thesis by blast
qed

lemma failed_retrieval_ends_pass:
  assumes m: "m = io_bind get_current_permissions_df rest"
    and rest: "\<And>cs. emits (\<lambda>e. \<not> is_fetch e) (rest cs)"
    and f: "FetchFailed d e \<in> set (effects m w)"
  shows "fst (m w) = Inl e \<and>
         (\<exists>before after. domains = before @ d # after \<and>
            effects m w = map Fetched before @ [FetchFailed d e])"
  using retrieval_cases[of w]
proof
  assume "\<exists>cs. get_current_permissions_df w = (Inr cs, fetched_world w)"
  then obtain cs where c: "get_current_permissions_df w = (Inr cs, fetched_world w)" ..
  then have "m w = rest cs (fetched_world w)" by (simp add: m io_bind_def)
  moreover obtain evs where "trace (snd (rest cs (fetched_world w))) = trace (fetched_world w) @ evs"
    and "list_all (\<lambda>e. \<not> is_fetch e) evs"
    using rest[of cs] unfolding emits_def by blast
  ultimately have "effects m w = map Fetched domains @ [Wrote ''current_permissions.yaml''] @ evs"
    and "FetchFailed d e \<notin> set evs"
    by (auto simp: effects_def fetched_world_def list_all_iff)
  with f show ?thesis by auto
next
  assume "\<exists>before d e after. domains = before @ d # after \<and>
      get_current_permissions_df w
        = (Inl e, w\<lparr>trace := trace w @ map Fetched before @ [FetchFailed d e]\<rparr>)"
  then obtain before d' e' after where d: "domains = before @ d' # after"
    and "get_current_permissions_df w
        = (Inl e', w\<lparr>trace := trace w @ map Fetched before @ [FetchFailed d' e']\<rparr>)"
    by blast
  then have r: "m w = (Inl e', w\<lparr>trace := trace w @ map Fetched before @ [FetchFailed d' e']\<rparr>)"
    by (simp add: m io_bind_def)
  then have e: "effects m w = map Fetched before @ [FetchFailed d' e']"
    by (simp add: effects_def)
  with f have "d' = d" "e' = e" by auto
  with r e d show ?thesis by auto
qed

section \<open>What a run leaves behind\<close>

lemma remdups_covered: "set xs \<subseteq> set ys \<Longrightarrow> remdups (xs @ ys) = remdups ys"
  by (induction xs) auto

lemma first_seen_covered:
  assumes "distinct cs" "set rest \<subseteq> set cs"
  shows "first_seen (cs @ rest) = cs"
proof -
  have "remdups (rev rest @ rev cs) = remdups (rev cs)"
    using assms(2) by (intro remdups_covered) simp
  then show ?thesis using assms(1) by (simp add: first_seen_def distinct_remdups_id)
qed

lemma reindex_own_keys: "distinct (map fst e) \<Longrightarrow> reindex (map fst e) e = e"
proof (induction e)
  case Nil
  then show ?case by (simp add: reindex_def)
next
  case (Cons p e)
  obtain k v where p: "p = (k, v)" by (cases p)
  from Cons.prems p have k: "k \<notin> fst ` set e" and d: "distinct (map fst e)" by auto
  have "map (\<lambda>c. (c, get ((k, v) # e) c)) (map fst e) = map (\<lambda>c. (c, get e c)) (map fst e)"
    using k by (intro map_cong) (auto simp: get_Cons)
  with Cons.IH[OF d] show ?case
    by (simp add: p reindex_def get_Cons)
qed

lemma DataFrame_uniform:
  assumes "es \<noteq> []" and "\<forall>e \<in> set es. map fst e = cs" and "distinct cs"
  shows "DataFrame es = \<lparr>columns = cs, rows = es\<rparr>"
proof -
  obtain e es' where es: "es = e # es'" using assms(1) by (cases es) auto
  have "set (concat (map (map fst) es')) \<subseteq> set cs"
    using assms(2) es by auto
  moreover have "concat (map (map fst) es) = cs @ concat (map (map fst) es')"
    using assms(2) es by simp
  ultimately have c: "first_seen (concat (map (map fst) es)) = cs"
    using first_seen_covered[OF assms(3)] by simp
  have "map (reindex cs) es = es"
    using assms(2,3) reindex_own_keys by (intro map_idI) metis
  with c show ?thesis by (simp add: DataFrame_def)
qed

lemma distinct_call_keys [simp]: "distinct (call_keys d)"
  by (cases d) simp_all




lemma store_frame_Nil [simp]: "store_frame d [] = \<lparr>columns = [], rows = []\<rparr>"
  by (simp add: store_frame_def to_dict_def)






lemma key_of_sub:
  assumes "set ks \<subseteq> set cs" and "key_of cs a = key_of cs b"
  shows "key_of ks a = key_of ks b"
  using assms by (auto simp: key_of_def)


lemma reports_call_arguments_trace [simp]:
  "reports_call_arguments (w\<lparr>trace := tr\<rparr>) = reports_call_arguments w"
  by (simp add: reports_call_arguments_def)


lemma collect_client_get_Inr:
  assumes "distinct ds" and "collect client_get ds w = (Inr ys, w')"
  shows "w' = w\<lparr>trace := trace w @ map Fetched ds\<rparr> \<and> (\<exists>g. ys = map g ds)"
  using assms
proof (induction ds arbitrary: w ys)
  case Nil
  then show ?case by (simp add: io_return_def)
next
  case (Cons x xs)
  from Cons.prems(2) obtain y w1 zs where
    1: "client_get x w = (Inr y, w1)" and 2: "collect client_get xs w1 = (Inr zs, w')"
    and ys: "ys = y # zs"
    by (auto elim!: io_bind_InrE simp: io_return_def)
  from 1 have w1: "w1 = w\<lparr>trace := trace w @ [Fetched x]\<rparr>"
    by (auto simp: client_get_def split: sum.splits)
  from Cons.prems(1) have d: "distinct xs" and x: "x \<notin> set xs" by simp_all
  from Cons.IH[OF d 2] obtain g where w': "w' = w1\<lparr>trace := trace w1 @ map Fetched xs\<rparr>"
    and zs: "zs = map g xs" by blast
  have "map (g(x := y)) xs = map g xs" using x by (intro map_cong) auto
  with ys zs have "ys = map (g(x := y)) (x # xs)" by simp
  then have "\<exists>g. ys = map g (x # xs)" by blast
  moreover have "w' = w\<lparr>trace := trace w @ map Fetched (x # xs)\<rparr>"
    using w' w1 by simp
  ultimately show ?case by simp
qed


lemma get_current_permissions_df_Inr:
  assumes "get_current_permissions_df w = (Inr cs, w')"
  obtains cur where "cs = map cur domains" and "w' = fetched_world w"
proof -
  from assms obtain ys w1 where
    1: "collect client_get domains w = (Inr ys, w1)"
    and cs: "cs = map DataFrame (map to_dict (map DataFrame ys))"
    and w': "w' = w1\<lparr>trace := trace w1 @ [Wrote ''current_permissions.yaml'']\<rparr>"
    unfolding get_current_permissions_df_def get_current_permissions_def
      write_all_permissions_df_yaml_def get_all_permissions_df_yaml_def
      get_all_permissions_df_def get_all_permissions_def
    by (elim io_bind_InrE) (auto simp: io_return_def emit_def)
  from collect_client_get_Inr[OF _ 1] obtain g where
    w1: "w1 = w\<lparr>trace := trace w @ map Fetched domains\<rparr>" and ys: "ys = map g domains"
    by (auto simp: domains_def)
  show ?thesis
    by (rule that[of "\<lambda>d. DataFrame (to_dict (DataFrame (g d)))"])
       (simp_all add: cs ys w' w1 fetched_world_def comp_def)
qed

lemma first_error_Inr:
  "first_error (map f xs) = Inr ys \<Longrightarrow> ys = map (\<lambda>x. projr (f x)) xs \<and> (\<forall>x \<in> set xs. f x = Inr (projr (f x)))"
proof (induction xs arbitrary: ys)
  case Nil
  then show ?case by simp
next
  case (Cons x xs)
  then show ?case
    by (cases "f x"; cases "first_error (map f xs)") auto
qed

lemma get_desired_permissions_df_Inr:
  assumes "get_desired_permissions_df w = (Inr ds, w')"
  shows "\<exists>doc es. desired_file w = Parsed doc \<and>
           (\<forall>d. getitem doc (domain_key d) KeyError = Inr (es d)) \<and>
           ds = map (\<lambda>d. DataFrame (es d)) domains \<and> w' = w"
proof -
  from assms obtain doc w1 ys where
    1: "get_desired_permissions w = (Inr doc, w1)"
    and 2: "first_error (map (\<lambda>d. getitem doc (domain_key d) KeyError) domains) = Inr ys"
    and 3: "ds = map DataFrame ys" "w' = w1"
    unfolding get_desired_permissions_df_def
    by (elim io_bind_InrE) (auto simp: io_lift_def io_return_def)
  from 1 have p: "desired_file w = Parsed doc" and w1: "w1 = w"
    by (auto simp: get_desired_permissions_def io_return_def io_bind_def emit_def io_raise_def
        split: load.splits)
  let ?es = "\<lambda>d. projr (getitem doc (domain_key d) KeyError)"
  from first_error_Inr[OF 2] have "ys = map ?es domains"
    and "\<forall>d. getitem doc (domain_key d) KeyError = Inr (?es d)" by simp_all
  with p w1 3 show ?thesis by (intro exI[of _ doc] exI[of _ ?es]) (simp add: comp_def)
qed


lemma map2_map_map: "map2 f (map g xs) (map h xs) = map (\<lambda>x. f (g x) (h x)) xs"
  by (induction xs) auto


lemma get_permissions_diff_df_Inr:
  assumes "get_permissions_diff_df w = (Inr ms, w')"
  obtains cur doc es where
    "get_current_permissions_df w = (Inr (map cur domains), fetched_world w)"
    and "desired_file w = Parsed doc"
    and "\<forall>d. getitem doc (domain_key d) KeyError = Inr (es d)"
    and "first_error (map (\<lambda>d. merge (cur d) (DataFrame (es d))) domains) = Inr ms"
    and "w' = fetched_world w"
proof -
  from assms obtain cs w1 ds w2 where
    1: "get_current_permissions_df w = (Inr cs, w1)"
    and 2: "get_desired_permissions_df w1 = (Inr ds, w2)"
    and 3: "first_error (map2 merge cs ds) = Inr ms" and w': "w' = w2"
    unfolding get_permissions_diff_df_def get_permissions_diff_def
    by (elim io_bind_InrE) (auto simp: io_lift_def)
  from 1 obtain cur where cs: "cs = map cur domains" and w1: "w1 = fetched_world w"
    by (rule get_current_permissions_df_Inr)
  from get_desired_permissions_df_Inr[OF 2] obtain doc es where
    doc: "desired_file w1 = Parsed doc"
    and es: "\<forall>d. getitem doc (domain_key d) KeyError = Inr (es d)"
    and ds: "ds = map (\<lambda>d. DataFrame (es d)) domains" and w2: "w2 = w1" by blast
  show ?thesis
  proof (rule that[of cur doc es])
    show "get_current_permissions_df w = (Inr (map cur domains), fetched_world w)"
      using 1 cs w1 by simp
    show "desired_file w = Parsed doc" using doc w1 by (simp add: fetched_world_def)
    show "\<forall>d. getitem doc (domain_key d) KeyError = Inr (es d)" by (rule es)
    show "first_error (map (\<lambda>d. merge (cur d) (DataFrame (es d))) domains) = Inr ms"
      using 3 unfolding cs ds map2_map_map .
    show "w' = fetched_world w" using w' w2 w1 by simp
  qed
qed

lemma getitem_Inr: "getitem row k err = Inr v \<Longrightarrow> get row k = v"
  by (auto simp: getitem_def get_def split: option.splits)

lemma first_error_getitem:
  assumes "first_error (map (\<lambda>k. getitem row k KeyError) ks) = Inr args"
  shows "args = key_of ks row"
proof -
  from first_error_Inr[OF assms]
  have a: "args = map (\<lambda>k. projr (getitem row k KeyError)) ks"
    and b: "\<forall>k \<in> set ks. getitem row k KeyError = Inr (projr (getitem row k KeyError))"
    by simp_all
  have "map (\<lambda>k. projr (getitem row k KeyError)) ks = map (get row) ks"
    using b by (intro map_cong[OF refl]) (metis getitem_Inr)
  with a show ?thesis by (simp add: key_of_def)
qed

lemma apply_row_Inr:
  assumes "apply_row v d row w = (Inr u, w')"
  shows "w' = step v d row w"
proof -
  from assms obtain args w1 where
    1: "io_lift (first_error (map (\<lambda>k. getitem row k KeyError) (call_keys d))) w = (Inr args, w1)"
    and 2: "client_apply v d args w1 = (Inr u, w')"
    unfolding apply_row_def by (elim io_bind_InrE)
  from 1 have a: "args = key_of (call_keys d) row" and w1: "w1 = w"
    by (auto simp: io_lift_def dest: first_error_getitem)
  from 2 show ?thesis
    unfolding a w1
    by (auto simp: client_apply_def io_bind_def emit_def step_def Let_def split: reply.splits)
qed

lemma for_each_apply_Inr:
  "for_each (apply_row v d) rs w = (Inr u, w') \<Longrightarrow> w' = foldl (\<lambda>w row. step v d row w) w rs"
proof (induction rs arbitrary: w)
  case Nil
  then show ?case by (simp add: io_return_def)
next
  case (Cons row rs)
  from Cons.prems obtain u1 w1 where
    1: "apply_row v d row w = (Inr u1, w1)" and 2: "for_each (apply_row v d) rs w1 = (Inr u, w')"
    by (auto elim: io_bind_InrE)
  from Cons.IH[OF 2] apply_row_Inr[OF 1] show ?case by simp
qed

lemma loops_Inr:
  "for_each (\<lambda>(d, rs). for_each (apply_row v d) rs) (map (\<lambda>d. (d, X d)) ds) w = (Inr u, w')
   \<Longrightarrow> w' = phase v X ds w"
proof (induction ds arbitrary: w)
  case Nil
  then show ?case by (simp add: io_return_def phase_def)
next
  case (Cons d ds)
  from Cons.prems obtain u1 w1 where
    1: "for_each (apply_row v d) (X d) w = (Inr u1, w1)"
    and 2: "for_each (\<lambda>(d, rs). for_each (apply_row v d) rs) (map (\<lambda>d. (d, X d)) ds) w1
            = (Inr u, w')"
    by (auto elim: io_bind_InrE)
  from Cons.IH[OF 2] for_each_apply_Inr[OF 1] show ?case by (simp add: phase_def)
qed

lemma step_fields [simp]:
  "reply (step v d row w) = reply w"
  "getter (step v d row w) = getter w"
  "desired_file (step v d row w) = desired_file w"
  "trace (step v d row w) = trace w @ [Called v d (key_of (call_keys d) row)]"
  by (simp_all add: step_def Let_def)

lemma steps_fields [simp]:
  "reply (foldl (\<lambda>w row. step v d row w) w rs) = reply w"
  "getter (foldl (\<lambda>w row. step v d row w) w rs) = getter w"
  "desired_file (foldl (\<lambda>w row. step v d row w) w rs) = desired_file w"
  "trace (foldl (\<lambda>w row. step v d row w) w rs) = trace w @ calls_of v d rs"
  by (induction rs arbitrary: w) (simp_all add: calls_of_def)

lemma phase_fields [simp]:
  "reply (phase v X ds w) = reply w"
  "getter (phase v X ds w) = getter w"
  "desired_file (phase v X ds w) = desired_file w"
  "trace (phase v X ds w) = trace w @ concat (map (\<lambda>d. calls_of v d (X d)) ds)"
  by (induction ds arbitrary: w) (simp_all add: phase_def)




lemma zip_map_self: "zip xs (map f xs) = map (\<lambda>x. (x, f x)) xs"
  by (induction xs) auto




lemma distinct_domains [simp]: "distinct domains"
  by (simp add: domains_def)

lemma fetched_world_fields [simp]:
  "granted (fetched_world w) = granted w"
  "reply (fetched_world w) = reply w"
  "getter (fetched_world w) = getter w"
  "desired_file (fetched_world w) = desired_file w"
  "trace (fetched_world w) = trace w @ map Fetched domains @ [Wrote ''current_permissions.yaml'']"
  by (simp_all add: fetched_world_def)

lemma update_permissions_Inr:
  assumes run: "update_permissions w = (Inr first, w')"
  obtains cur doc es mm where
    "get_current_permissions_df w = (Inr (map cur domains), fetched_world w)"
    and "desired_file w = Parsed doc"
    and "\<forall>d. getitem doc (domain_key d) KeyError = Inr (es d)"
    and "\<forall>d. merge (cur d) (DataFrame (es d)) = Inr (mm d)"
    and "first = (map (\<lambda>d. added_rows (mm d)) domains, map (\<lambda>d. removed_rows (mm d)) domains)"
    and "w' = phase Remove (\<lambda>d. removed_rows (mm d)) domains
                (phase Add (\<lambda>d. added_rows (mm d)) domains (fetched_world w))"
proof -
  from run obtain ms wA u1 wB u2 where
    D: "get_permissions_diff_df w = (Inr ms, wA)"
    and L1: "for_each (\<lambda>(d, rs). for_each (apply_row Add d) rs) (zip domains (map added_rows ms)) wA
             = (Inr u1, wB)"
    and L2: "for_each (\<lambda>(d, rs). for_each (apply_row Remove d) rs)
               (zip domains (map removed_rows ms)) wB = (Inr u2, w')"
    and F: "first = (map added_rows ms, map removed_rows ms)"
    unfolding update_permissions_def Let_def added_rows_def[abs_def] removed_rows_def[abs_def]
    by (elim io_bind_InrE) (auto simp: io_return_def)
  from D obtain cur doc es where
    cur: "get_current_permissions_df w = (Inr (map cur domains), fetched_world w)"
    and doc: "desired_file w = Parsed doc"
    and es: "\<forall>d. getitem doc (domain_key d) KeyError = Inr (es d)"
    and fe: "first_error (map (\<lambda>d. merge (cur d) (DataFrame (es d))) domains) = Inr ms"
    and wA: "wA = fetched_world w"
    by (rule get_permissions_diff_df_Inr)
  let ?merge = "\<lambda>d. merge (cur d) (DataFrame (es d))"
  define mm where "mm d = projr (?merge d)" for d
  from first_error_Inr[OF fe] have ms: "ms = map mm domains"
    and mm: "\<forall>d. ?merge d = Inr (mm d)"
    by (simp_all add: mm_def)
  have zA: "zip domains (map added_rows ms) = map (\<lambda>d. (d, added_rows (mm d))) domains"
    and zR: "zip domains (map removed_rows ms) = map (\<lambda>d. (d, removed_rows (mm d))) domains"
    by (simp_all add: ms zip_map_self[of domains "\<lambda>d. added_rows (mm d)"]
        zip_map_self[of domains "\<lambda>d. removed_rows (mm d)"] comp_def)
  from L1 have wB: "wB = phase Add (\<lambda>d. added_rows (mm d)) domains wA"
    unfolding zA by (rule loops_Inr)
  from L2 have w': "w' = phase Remove (\<lambda>d. removed_rows (mm d)) domains wB"
    unfolding zR by (rule loops_Inr)
  show ?thesis
    by (rule that[OF cur doc es mm]) (simp_all add: F ms comp_def w' wB wA)
qed

lemma effects_update_permissions_Inr:
  assumes "update_permissions w = (Inr (added, removed), w')"
  shows "effects update_permissions w
         = map Fetched domains @ [Wrote ''current_permissions.yaml'']
           @ concat (map2 (calls_of Add) domains added)
           @ concat (map2 (calls_of Remove) domains removed)"
proof -
  from assms obtain mm where
    f: "(added, removed)
        = (map (\<lambda>d. added_rows (mm d)) domains, map (\<lambda>d. removed_rows (mm d)) domains)"
    and w': "w' = phase Remove (\<lambda>d. removed_rows (mm d)) domains
                (phase Add (\<lambda>d. added_rows (mm d)) domains (fetched_world w))"
    by (rule update_permissions_Inr)
  have z: "map2 (calls_of v) domains (map X domains) = map (\<lambda>d. calls_of v d (X d)) domains"
    for v and X :: "domain \<Rightarrow> entry list"
    by (simp add: zip_map_self[of domains X] comp_def)
  from f have a: "added = map (\<lambda>d. added_rows (mm d)) domains"
    and r: "removed = map (\<lambda>d. removed_rows (mm d)) domains" by simp_all
  show ?thesis
    using assms by (simp add: effects_def w' a r z)
qed

section \<open>The diff of two record sets\<close>

text \<open>
  When both record sets are non-empty and all records have the same keys, the merge
  classifies by set difference and intersection: the added rows are the desired
  records that are not current, the removed rows the current records that are not
  desired, the unchanged rows the records that are both.
\<close>

lemma key_of_own_keys:
  assumes "map fst a = cs" "map fst b = cs" "distinct cs" "key_of cs a = key_of cs b"
  shows "a = b"
proof -
  have "a = reindex cs a" "b = reindex cs b"
    using assms(1-3) reindex_own_keys by metis+
  moreover have "reindex cs a = reindex cs b"
    using assms(4) by (simp add: reindex_def key_of_def)
  ultimately show ?thesis by simp
qed

lemma diff_of_same_shape:
  assumes ne: "current \<noteq> []" "desired \<noteq> []"
    and shape: "\<forall>e \<in> set current \<union> set desired. map fst e = cs"
    and cs: "distinct cs" "cs \<noteq> []" "\<forall>c \<in> set cs. c \<notin> set indicator_names"
    and hash: "\<forall>e \<in> set current \<union> set desired. \<forall>c \<in> set cs. hashable (get e c)"
  shows "\<exists>m. merge (DataFrame current) (DataFrame desired) = Inr m \<and>
           set (added_rows m)
             = (\<lambda>e. e @ [(''_merge'', YStr ''right_only'')]) ` (set desired - set current) \<and>
           set (removed_rows m)
             = (\<lambda>e. e @ [(''_merge'', YStr ''left_only'')]) ` (set current - set desired) \<and>
           set (to_dict (select_merge ''both'' m))
             = (\<lambda>e. e @ [(''_merge'', YStr ''both'')]) ` (set current \<inter> set desired)"
proof -
  define l where "l = DataFrame current"
  define r where "r = DataFrame desired"
  have "l = \<lparr>columns = cs, rows = current\<rparr>"
    unfolding l_def using ne(1) shape cs(1) by (intro DataFrame_uniform) auto
  then have cl: "columns l = cs" and rl: "rows l = current" by simp_all
  have "r = \<lparr>columns = cs, rows = desired\<rparr>"
    unfolding r_def using ne(2) shape cs(1) by (intro DataFrame_uniform) auto
  then have cr: "columns r = cs" and rr: "rows r = desired" by simp_all
  have ks: "join_keys l r = cs" and ex: "right_extra l r = []"
    by (simp_all add: join_keys_def right_extra_def cl cr)
  have "mergeable l r"
    unfolding mergeable_def ks cl cr rl rr using cs hash by auto
  then obtain m where m: "merge l r = Inr m" using mergeable_merge by blast
  have own: "map (\<lambda>c. (c, get e c)) cs = e" if "e \<in> set current \<union> set desired" for e
  proof -
    from that shape have "map fst e = cs" by blast
    with cs(1) reindex_own_keys[of e] show ?thesis by (simp add: reindex_def)
  qed
  have lo: "left_only_row l r a = a @ [(''_merge'', YStr ''left_only'')]"
    if "a \<in> set current" for a
    using that own[of a] by (simp add: left_only_row_def ex cl)
  have ro: "right_only_row l r b = b @ [(''_merge'', YStr ''right_only'')]"
    if "b \<in> set desired" for b
  proof -
    have "map (\<lambda>c. (c, if c \<in> set cs then get b c else YNull)) cs = map (\<lambda>c. (c, get b c)) cs"
      by (rule map_cong) simp_all
    with that own[of b] show ?thesis
      by (simp add: right_only_row_def ex ks cl)
  qed
  have bo: "both_row l r a b = a @ [(''_merge'', YStr ''both'')]" if "a \<in> set current" for a b
    using that own[of a] by (simp add: both_row_def ex cl)
  have inj: "a = b"
    if "a \<in> set current \<union> set desired" "b \<in> set current \<union> set desired"
      "key_of cs a = key_of cs b" for a b
  proof -
    from that(1,2) shape have "map fst a = cs" "map fst b = cs" by blast+
    then show ?thesis using cs(1) that(3) by (rule key_of_own_keys)
  qed
  have un_l: "set (unmatched cs current desired) = set current - set desired"
  proof (intro set_eqI iffI)
    fix a assume a: "a \<in> set (unmatched cs current desired)"
    then have "a \<in> set current" "\<forall>b \<in> set desired. key_of cs b \<noteq> key_of cs a"
      by (simp_all add: unmatched_iff)
    then show "a \<in> set current - set desired" by blast
  next
    fix a assume a: "a \<in> set current - set desired"
    then have "\<forall>b \<in> set desired. key_of cs b \<noteq> key_of cs a"
      using inj[of _ a] by blast
    with a show "a \<in> set (unmatched cs current desired)" by (simp add: unmatched_iff)
  qed
  have un_r: "set (unmatched cs desired current) = set desired - set current"
  proof (intro set_eqI iffI)
    fix b assume "b \<in> set (unmatched cs desired current)"
    then have "b \<in> set desired" "\<forall>a \<in> set current. key_of cs a \<noteq> key_of cs b"
      by (simp_all add: unmatched_iff)
    then show "b \<in> set desired - set current" by blast
  next
    fix b assume b: "b \<in> set desired - set current"
    then have "\<forall>a \<in> set current. key_of cs a \<noteq> key_of cs b"
      using inj[of _ b] by blast
    with b show "b \<in> set (unmatched cs desired current)" by (simp add: unmatched_iff)
  qed
  have pa: "set (partners cs a desired) = (if a \<in> set desired then {a} else {})"
    if a: "a \<in> set current" for a
  proof (cases "a \<in> set desired")
    case True
    have "set (partners cs a desired) = {a}"
    proof (intro set_eqI iffI)
      fix b assume "b \<in> set (partners cs a desired)"
      then have "b \<in> set desired" "key_of cs b = key_of cs a" by (simp_all add: partners_def)
      with a inj[of b a] show "b \<in> {a}" by simp
    next
      fix b assume "b \<in> {a}"
      with True show "b \<in> set (partners cs a desired)" by (simp add: partners_def)
    qed
    with True show ?thesis by simp
  next
    case False
    have "set (partners cs a desired) = {}"
    proof (rule ccontr)
      assume "set (partners cs a desired) \<noteq> {}"
      then obtain b where "b \<in> set desired" "key_of cs b = key_of cs a"
        by (auto simp: partners_def)
      with a inj[of b a] False show False by simp
    qed
    with False show ?thesis by simp
  qed
  have "set (added_rows m) = right_only_row l r ` (set desired - set current)"
    by (simp add: added_rows_def to_dict_def select_right_only[OF m] ks rl rr un_r)
  also have "\<dots> = (\<lambda>e. e @ [(''_merge'', YStr ''right_only'')]) ` (set desired - set current)"
    by (rule image_cong) (simp_all add: ro)
  finally have A: "set (added_rows m)
      = (\<lambda>e. e @ [(''_merge'', YStr ''right_only'')]) ` (set desired - set current)" .
  have "set (removed_rows m) = left_only_row l r ` (set current - set desired)"
    by (simp add: removed_rows_def to_dict_def select_left_only[OF m] ks rl rr un_l)
  also have "\<dots> = (\<lambda>e. e @ [(''_merge'', YStr ''left_only'')]) ` (set current - set desired)"
    by (rule image_cong) (simp_all add: lo)
  finally have R: "set (removed_rows m)
      = (\<lambda>e. e @ [(''_merge'', YStr ''left_only'')]) ` (set current - set desired)" .
  have "set (to_dict (select_merge ''both'' m))
        = (\<Union>a \<in> set current. both_row l r a ` set (partners cs a desired))"
    by (simp add: to_dict_def select_both[OF m] ks rl rr)
  also have "\<dots> = (\<Union>a \<in> set current. if a \<in> set desired
                                        then {a @ [(''_merge'', YStr ''both'')]} else {})"
    by (rule SUP_cong) (simp_all add: pa bo)
  also have "\<dots> = (\<lambda>e. e @ [(''_merge'', YStr ''both'')]) ` (set current \<inter> set desired)"
    by (auto split: if_splits)
  finally have B: "set (to_dict (select_merge ''both'' m))
      = (\<lambda>e. e @ [(''_merge'', YStr ''both'')]) ` (set current \<inter> set desired)" .
  from m A R B show ?thesis unfolding l_def r_def by blast
qed

text \<open>
  Claim C1 says that for every pair of duplicate-free current and desired record sets
  of one domain the outer merge yields added = desired - current, removed = current -
  desired and unchanged = their intersection. An empty record set reaches the merge
  as \<^verbatim>\<open>pd.DataFrame([])\<close>, a frame without columns; it shares no column with the other
  frame, and the merge raises \<^verbatim>\<open>MergeError\<close> instead of classifying anything: with an
  empty desired set nothing is reported as removed, with an empty current set nothing
  as added. In scenario B the whole diff, and with it the run, ends with that error.
\<close>

theorem diff_of_empty_record_set_raises:
  "merge (DataFrame current) (DataFrame []) = Inl MergeError \<and>
   merge (DataFrame []) (DataFrame desired) = Inl MergeError \<and>
   fst (get_permissions_diff scenario_b) = Inl MergeError \<and>
   fst (update_permissions scenario_b) = Inl MergeError"
proof -
  have "fst (get_permissions_diff scenario_b) = Inl MergeError"
    and "fst (update_permissions scenario_b) = Inl MergeError"
    by code_simp+
  then show ?thesis by (simp add: merge_def)
qed

section \<open>A failing retrieval\<close>

lemma update_permissions_after_retrieval:
  "update_permissions =
     io_bind get_current_permissions_df (\<lambda>cs.
       io_bind
         (io_bind get_desired_permissions_df (\<lambda>ds. io_lift (first_error (map2 merge cs ds))))
         (\<lambda>ms.
            io_bind (for_each (\<lambda>(d, rs). for_each (apply_row Add d) rs)
                       (zip domains (map added_rows ms))) (\<lambda>_.
            io_bind (for_each (\<lambda>(d, rs). for_each (apply_row Remove d) rs)
                       (zip domains (map removed_rows ms))) (\<lambda>_.
            io_return (map added_rows ms, map removed_rows ms)))))"
  by (simp add: update_permissions_def Let_def get_permissions_diff_df_def
      get_permissions_diff_def io_bind_assoc added_rows_def[abs_def] removed_rows_def[abs_def])

lemma write_permissions_diff_df_yaml_after_retrieval:
  "write_permissions_diff_df_yaml output_file =
     io_bind get_current_permissions_df (\<lambda>cs.
       io_bind
         (io_bind get_desired_permissions_df (\<lambda>ds. io_lift (first_error (map2 merge cs ds))))
         (\<lambda>ms. io_bind (io_return (map to_dict ms)) (\<lambda>ys.
                 io_bind (emit (Wrote output_file)) (\<lambda>_. io_return ys))))"
  by (simp add: write_permissions_diff_df_yaml_def get_permissions_diff_df_yaml_def
      get_permissions_diff_df_def get_permissions_diff_def io_bind_assoc)

text \<open>
  Claim C4, amended: a retrieval that fails is not skipped but ends the run. Whenever
  a getter of the client raises during the main program, that is the last thing the
  main program does, and the getter's exception is what the main program ends with.
  The pass in which it happens, be it the diff report or a run of
  \<^verbatim>\<open>update_permissions\<close>, has retrieved the domains before the failing one and done
  nothing else: it retrieves no later domain, computes and writes no diff, and issues
  no grant or revoke call; the getter's exception is its result.
\<close>

theorem fetch_failure_aborts_run:
  "(\<forall>i d e. i < length (effects main w) \<longrightarrow> effects main w ! i = FetchFailed d e \<longrightarrow>
      Suc i = length (effects main w) \<and> fst (main w) = Inl e) \<and>
   (\<forall>d e. FetchFailed d e \<in> set (effects update_permissions w) \<longrightarrow>
      fst (update_permissions w) = Inl e \<and>
      (\<exists>before after. domains = before @ d # after \<and>
         effects update_permissions w = map Fetched before @ [FetchFailed d e])) \<and>
   (\<forall>output_file d e.
      FetchFailed d e \<in> set (effects (write_permissions_diff_df_yaml output_file) w) \<longrightarrow>
      fst (write_permissions_diff_df_yaml output_file w) = Inl e \<and>
      (\<exists>before after. domains = before @ d # after \<and>
         effects (write_permissions_diff_df_yaml output_file) w
           = map Fetched before @ [FetchFailed d e]))"
proof (intro conjI allI impI)
  fix i d e
  assume "i < length (effects main w)" and "effects main w ! i = FetchFailed d e"
  moreover from this have "raised w (effects main w ! i) = Some e" by (simp add: raised_def)
  ultimately have "Suc i = length (effects main w) \<and> fst (main w) = Inl e"
    using stops_main unfolding stops_at_raise_def by blast
  then show "Suc i = length (effects main w)" and "fst (main w) = Inl e" by simp_all
next
  fix d e
  assume f: "FetchFailed d e \<in> set (effects update_permissions w)"
  have "fst (update_permissions w) = Inl e \<and>
      (\<exists>before after. domains = before @ d # after \<and>
         effects update_permissions w = map Fetched before @ [FetchFailed d e])"
    by (rule failed_retrieval_ends_pass[OF update_permissions_after_retrieval _ f])
       (intro emits_bind emits_plain_get_desired_permissions_df emits_lift emits_plain_loops
        emits_return)
  then show "fst (update_permissions w) = Inl e"
    and "\<exists>before after. domains = before @ d # after \<and>
         effects update_permissions w = map Fetched before @ [FetchFailed d e]" by simp_all
next
  fix output_file d e
  assume f: "FetchFailed d e \<in> set (effects (write_permissions_diff_df_yaml output_file) w)"
  have "fst (write_permissions_diff_df_yaml output_file w) = Inl e \<and>
      (\<exists>before after. domains = before @ d # after \<and>
         effects (write_permissions_diff_df_yaml output_file) w
           = map Fetched before @ [FetchFailed d e])"
    by (rule failed_retrieval_ends_pass[OF write_permissions_diff_df_yaml_after_retrieval _ f])
       (intro emits_bind emits_plain_get_desired_permissions_df emits_lift emits_return
        emits_emit, simp)
  then show "fst (write_permissions_diff_df_yaml output_file w) = Inl e"
    and "\<exists>before after. domains = before @ d # after \<and>
         effects (write_permissions_diff_df_yaml output_file) w
           = map Fetched before @ [FetchFailed d e]" by simp_all
qed

theorem fetch_failure_aborts_run_witness:
  "effects main late_failure ! 28 = FetchFailed Global (FetchError Global) \<and>
   length (effects main late_failure) = 29 \<and>
   fst (main late_failure) = Inl (FetchError Global) \<and>
   filter is_call (take 28 (effects main late_failure))
     = map (\<lambda>d. Called Add d (grant_of ''VIEW'' ''jdoe'' d)) domains
       @ map (\<lambda>d. Called Remove d (grant_of ''EDIT'' ''jdoe'' d)) domains \<and>
   effects update_permissions scenario_d
     = [Fetched Global, Fetched BuildPlan, Fetched Project,
        FetchFailed Deployment (FetchError Deployment)] \<and>
   fst (update_permissions scenario_d) = Inl (FetchError Deployment) \<and>
   effects (write_permissions_diff_df_yaml ''permissions_diff.yaml'') scenario_d
     = [Fetched Global, Fetched BuildPlan, Fetched Project,
        FetchFailed Deployment (FetchError Deployment)] \<and>
   fst (write_permissions_diff_df_yaml ''permissions_diff.yaml'' scenario_d)
     = Inl (FetchError Deployment)"
proof -
  have i: "28 < length (effects main late_failure)" by code_simp
  have c: "effects main late_failure ! 28 = FetchFailed Global (FetchError Global)" by code_simp
  have k: "filter is_call (take 28 (effects main late_failure))
     = map (\<lambda>d. Called Add d (grant_of ''VIEW'' ''jdoe'' d)) domains
       @ map (\<lambda>d. Called Remove d (grant_of ''EDIT'' ''jdoe'' d)) domains" by code_simp
  have u: "effects update_permissions scenario_d
     = [Fetched Global, Fetched BuildPlan, Fetched Project,
        FetchFailed Deployment (FetchError Deployment)]" by code_simp
  have r: "effects (write_permissions_diff_df_yaml ''permissions_diff.yaml'') scenario_d
     = [Fetched Global, Fetched BuildPlan, Fetched Project,
        FetchFailed Deployment (FetchError Deployment)]" by code_simp
  from fetch_failure_aborts_run[of late_failure] i c
  have 1: "Suc 28 = length (effects main late_failure)"
    and 2: "fst (main late_failure) = Inl (FetchError Global)" by blast+
  have "FetchFailed Deployment (FetchError Deployment)
          \<in> set (effects update_permissions scenario_d)" by (simp add: u)
  with fetch_failure_aborts_run[of scenario_d]
  have 3: "fst (update_permissions scenario_d) = Inl (FetchError Deployment)" by blast
  have "FetchFailed Deployment (FetchError Deployment)
          \<in> set (effects (write_permissions_diff_df_yaml ''permissions_diff.yaml'') scenario_d)"
    by (simp add: r)
  with fetch_failure_aborts_run[of scenario_d]
  have 4: "fst (write_permissions_diff_df_yaml ''permissions_diff.yaml'' scenario_d)
             = Inl (FetchError Deployment)" by blast
  from 1 have "length (effects main late_failure) = 29" by simp
  with c k u r 2 3 4 show ?thesis by simp
qed

text \<open>
  Claim C4 as stated fails in scenario D: retrieval fails for the deployment domain
  only, and the reconciliation of no other domain completes or is reported. The
  main program, \<^verbatim>\<open>update_permissions\<close> and the report writer all end with the
  fetch error, having retrieved three domains, written nothing and called no grant or
  revoke.
\<close>

theorem fetch_failure_counterexample:
  "fst (main scenario_d) = Inl (FetchError Deployment) \<and>
   effects main scenario_d
     = [Fetched Global, Fetched BuildPlan, Fetched Project,
        FetchFailed Deployment (FetchError Deployment)] \<and>
   fst (update_permissions scenario_d) = Inl (FetchError Deployment) \<and>
   effects update_permissions scenario_d
     = [Fetched Global, Fetched BuildPlan, Fetched Project,
        FetchFailed Deployment (FetchError Deployment)] \<and>
   fst (write_permissions_diff_df_yaml ''permissions_diff.yaml'' scenario_d)
     = Inl (FetchError Deployment) \<and>
   effects (write_permissions_diff_df_yaml ''permissions_diff.yaml'') scenario_d
     = [Fetched Global, Fetched BuildPlan, Fetched Project,
        FetchFailed Deployment (FetchError Deployment)]"
  by code_simp

section \<open>A desired file that is not well-formed\<close>

text \<open>
  Claim C5, amended: when the desired-state document is not well-formed, the parse
  error raised by the YAML parser is caught inside \<^verbatim>\<open>get_desired_permissions\<close> and
  printed; it is not the error the caller receives.
\<close>

theorem parse_error_caught_and_printed:
  "desired_file w = Malformed exc \<Longrightarrow>
     effects get_desired_permissions w = [Printed exc] \<and>
     fst (get_desired_permissions w) \<noteq> Inl (YAMLError exc)"
  by (simp add: get_desired_permissions_def effects_def io_bind_def emit_def io_raise_def)

theorem parse_error_caught_and_printed_witness:
  "desired_file scenario_malformed = Malformed ''mapping values are not allowed here'' \<and>
   effects get_desired_permissions scenario_malformed
     = [Printed ''mapping values are not allowed here''] \<and>
   fst (get_desired_permissions scenario_malformed)
     \<noteq> Inl (YAMLError ''mapping values are not allowed here'')"
proof -
  have h: "desired_file scenario_malformed = Malformed ''mapping values are not allowed here''"
    by (simp add: scenario_malformed_def)
  from parse_error_caught_and_printed[OF h] h show ?thesis by simp
qed

text \<open>
  Claim C5 as stated fails on a malformed document: what the caller of the loader
  receives is not the parse error but the \<^verbatim>\<open>UnboundLocalError\<close> of the \<^verbatim>\<open>return\<close>
  statement.
\<close>

theorem parse_error_counterexample:
  "fst (get_desired_permissions scenario_malformed)
     = Inl (UnboundLocalError ''desired_permissions_df_yaml'')"
  by (simp add: get_desired_permissions_def scenario_malformed_def io_bind_def emit_def
      io_raise_def)

section \<open>The value column\<close>




section \<open>What the loader makes of a desired document\<close>

text \<open>
  Claim C8 says that a subject entry listing n permissions becomes n Permission
  Records, one per permission, each with value = true. On the document format the
  module documents, the loader returns one row for the entry: its \<open>permissions\<close>
  cell is the whole list, and there is neither a \<open>permission\<close> nor a \<open>value\<close> column.
\<close>

theorem loader_keeps_permission_list:
  "fst (get_desired_permissions_df documented_format) =
     Inr (\<lparr>columns = [''name'', ''permissions''],
           rows = [[(''name'', YStr ''admin''),
                    (''permissions'', YSeq [YStr ''ADMINISTER'', YStr ''BUILD''])]]\<rparr>
          # replicate 5 \<lparr>columns = [], rows = []\<rparr>)"
  by code_simp

text \<open>
  Claim C9, amended: the loader validates nothing. Whenever the document has the six
  domain keys, loading succeeds, and the frame of a domain has one row per entry,
  holding under every column exactly what the entry holds (null where the entry has
  nothing). A row therefore has exactly one of subject name and subject group
  populated only if its entry has; an entry with both or with neither is accepted.
\<close>

theorem loader_never_validates:
  assumes "desired_file w = Parsed doc"
    and "\<forall>d. map_of doc (domain_key d) = Some (es d)"
  shows "fst (get_desired_permissions_df w) = Inr (map (\<lambda>d. DataFrame (es d)) domains) \<and>
         (\<forall>d. length (rows (DataFrame (es d))) = length (es d) \<and>
              (\<forall>i < length (es d). \<forall>c. get (rows (DataFrame (es d)) ! i) c = get (es d ! i) c))"
proof -
  have "fst (get_desired_permissions_df w) = Inr (map (\<lambda>d. DataFrame (es d)) domains)"
    using assms
    by (simp add: get_desired_permissions_df_def get_desired_permissions_def io_bind_def
        io_return_def io_lift_def getitem_def first_error_map_Inr[where g = es] comp_def)
  moreover have "length (rows (DataFrame (es d))) = length (es d)" for d
    by (simp add: DataFrame_def Let_def)
  ultimately show ?thesis
    by (simp add: DataFrame_cell)
qed

theorem loader_never_validates_witness:
  "desired_file unvalidated = Parsed (map (\<lambda>d. (domain_key d, unvalidated_entries d)) domains) \<and>
   fst (get_desired_permissions_df unvalidated)
     = Inr (map (\<lambda>d. DataFrame (unvalidated_entries d)) domains) \<and>
   length (rows (DataFrame (unvalidated_entries Global))) = 2 \<and>
   get (rows (DataFrame (unvalidated_entries Global)) ! 0) ''group'' = YStr ''admins'' \<and>
   get (rows (DataFrame (unvalidated_entries Global)) ! 1) ''group'' = YNull"
proof -
  let ?doc = "map (\<lambda>d. (domain_key d, unvalidated_entries d)) domains"
  have h: "desired_file unvalidated = Parsed ?doc"
    by (simp add: unvalidated_def)
  have k: "\<forall>d. map_of ?doc (domain_key d) = Some (unvalidated_entries d)"
  proof
    fix d show "map_of ?doc (domain_key d) = Some (unvalidated_entries d)"
      by (cases d) (simp_all add: domains_def)
  qed
  have e: "unvalidated_entries Global = [both_identities, no_identity]"
    by (simp add: unvalidated_entries_def)
  have g: "get both_identities ''group'' = YStr ''admins''" "get no_identity ''group'' = YNull"
    by (simp_all add: both_identities_def no_identity_def get_def)
  from loader_never_validates[OF h k] have
    "fst (get_desired_permissions_df unvalidated)
       = Inr (map (\<lambda>d. DataFrame (unvalidated_entries d)) domains)"
    and "length (rows (DataFrame (unvalidated_entries Global))) = length (unvalidated_entries Global)"
    and "\<forall>i < length (unvalidated_entries Global). \<forall>c.
           get (rows (DataFrame (unvalidated_entries Global)) ! i) c
             = get (unvalidated_entries Global ! i) c"
    by blast+
  then show ?thesis using h e g by simp
qed

text \<open>
  Claim C9 as stated fails on a document whose first global entry names both a user
  and a group and whose second names neither: loading succeeds, and the frame holds a
  row with both populated and a row with neither.
\<close>

theorem loader_counterexample:
  "fst (get_desired_permissions_df unvalidated) =
     Inr (\<lparr>columns = [''user'', ''group'', ''permission'', ''value''],
           rows = [[(''user'', YStr ''admin''), (''group'', YStr ''admins''),
                    (''permission'', YStr ''VIEW''), (''value'', YBool True)],
                   [(''user'', YNull), (''group'', YNull),
                    (''permission'', YStr ''BUILD''), (''value'', YBool True)]]\<rparr>
          # replicate 5 \<lparr>columns = [], rows = []\<rparr>)"
  by code_simp

section \<open>The report writers and the main program\<close>








text \<open>
  When the client answers the grant of VIEW in the global domain with a failure, the
  permission is still missing at the second run, and the main program issues that
  grant call twice.
\<close>

lemma main_repeats_grant:
  "count_list (effects main first_grant_fails)
     (Called Add Global [YStr ''VIEW'', YStr ''USER'', YStr ''jdoe'']) = 2"
  by code_simp

section \<open>The order of grants and revokes\<close>

text \<open>The three stretches of a run: the diff, the grants, the revokes.\<close>

lemma effects_update_permissions_split:
  "\<exists>before grants revokes.
     effects update_permissions w = before @ grants @ revokes \<and>
     list_all (\<lambda>e. \<not> is_call e) before \<and> list_all is_grant grants \<and>
     list_all is_revoke revokes"
proof -
  let ?diff = get_permissions_diff_df
  let ?added = "\<lambda>ms. map (\<lambda>m. to_dict (select_merge ''right_only'' m)) ms"
  let ?removed = "\<lambda>ms. map (\<lambda>m. to_dict (select_merge ''left_only'' m)) ms"
  let ?grants = "\<lambda>ms. for_each (\<lambda>(d, rs). for_each (apply_row Add d) rs) (zip domains (?added ms))"
  let ?revokes =
    "\<lambda>ms. for_each (\<lambda>(d, rs). for_each (apply_row Remove d) rs) (zip domains (?removed ms))"
  let ?tail = "\<lambda>ms. io_bind (?revokes ms) (\<lambda>_. io_return (?added ms, ?removed ms))"
  let ?rest = "\<lambda>ms. io_bind (?grants ms) (\<lambda>_. ?tail ms)"
  have up: "update_permissions = io_bind ?diff ?rest"
    by (simp add: update_permissions_def Let_def)
  have tail: "emits is_revoke (?tail ms)" for ms
    by (intro emits_bind emits_remove_loops emits_return)
  have e3: "effects (?tail ms) w' = effects (?revokes ms) w'" for ms w'
    by (simp add: effects_bind[OF emits_remove_loops, where Q = is_revoke] split: prod.splits sum.splits)
  have e2: "\<exists>g r. effects (?rest ms) w' = g @ r \<and> list_all is_grant g \<and> list_all is_revoke r"
    for ms w'
  proof -
    have "effects (?rest ms) w' = effects (?grants ms) w' @
            (case ?grants ms w' of (Inr x, w'') \<Rightarrow> effects (?tail ms) w'' | (Inl e, w'') \<Rightarrow> [])"
      by (rule effects_bind[OF emits_add_loops, where Q = is_revoke]) (rule tail)
    moreover have "list_all is_grant (effects (?grants ms) w')"
      by (rule emits_effects(2)[OF emits_add_loops])
    moreover have "list_all is_revoke
            (case ?grants ms w' of (Inr x, w'') \<Rightarrow> effects (?tail ms) w'' | (Inl e, w'') \<Rightarrow> [])"
      using emits_effects(2)[OF tail] by (auto split: prod.splits sum.splits)
    ultimately show ?thesis by blast
  qed
  have rest: "emits is_call (?rest ms)" for ms
    by (intro emits_bind emits_return emits_mono[OF emits_add_loops]
        emits_mono[OF emits_remove_loops]) (auto simp: is_call_def)
  have e1: "effects update_permissions w = effects ?diff w @
          (case ?diff w of (Inr ms, w') \<Rightarrow> effects (?rest ms) w' | (Inl e, w') \<Rightarrow> [])"
    unfolding up by (rule effects_bind[OF emits_get_permissions_diff_df, where Q = is_call]) (rule rest)
  have b: "list_all (\<lambda>e. \<not> is_call e) (effects ?diff w)"
    by (rule emits_effects(2)[OF emits_get_permissions_diff_df])
  obtain g r where
    "(case ?diff w of (Inr ms, w') \<Rightarrow> effects (?rest ms) w' | (Inl e, w') \<Rightarrow> []) = g @ r"
    "list_all is_grant g" "list_all is_revoke r"
  proof (cases "?diff w")
    case (Pair res w')
    show ?thesis
    proof (cases res)
      case (Inl e)
      with Pair that[of "[]" "[]"] show ?thesis by simp
    next
      case (Inr ms)
      with Pair e2[of ms w'] that show ?thesis by auto
    qed
  qed
  with e1 b show ?thesis by metis
qed

lemma scenario_c_first_run:
  "fst (update_permissions scenario_c)
     = Inr (map (\<lambda>d. [record_of ''VIEW'' ''jdoe'' d @ [(''_merge'', YStr ''right_only'')]]) domains,
            map (\<lambda>d. [record_of ''EDIT'' ''jdoe'' d @ [(''_merge'', YStr ''left_only'')]]) domains)"
  by code_simp

text \<open>
  Claim C3: whatever the world, everything \<^verbatim>\<open>update_permissions\<close> does splits into
  three stretches: first the retrieval and the diff, with no grant or revoke call,
  then grant calls only, then revoke calls only. So no revoke call of any domain
  precedes a grant call, and in particular a grant and a revoke for the same subject
  are issued in this order. When the run returns, the grant calls are those for the
  added rows, domain by domain, and the revoke calls those for the removed rows.
\<close>

theorem grants_precede_revokes:
  "(\<exists>before grants revokes.
      effects update_permissions w = before @ grants @ revokes \<and>
      list_all (\<lambda>e. \<not> is_call e) before \<and> list_all is_grant grants \<and>
      list_all is_revoke revokes) \<and>
   (\<forall>added removed w'. update_permissions w = (Inr (added, removed), w') \<longrightarrow>
      effects update_permissions w
        = map Fetched domains @ [Wrote ''current_permissions.yaml'']
          @ concat (map2 (calls_of Add) domains added)
          @ concat (map2 (calls_of Remove) domains removed))"
  using effects_update_permissions_split[of w] effects_update_permissions_Inr[of w]
  by blast

theorem grants_precede_revokes_witness:
  "(\<exists>before grants revokes.
      effects update_permissions scenario_c = before @ grants @ revokes \<and>
      list_all (\<lambda>e. \<not> is_call e) before \<and> list_all is_grant grants \<and>
      list_all is_revoke revokes) \<and>
   effects update_permissions scenario_c
     = map Fetched domains @ [Wrote ''current_permissions.yaml'']
       @ map (\<lambda>d. Called Add d (grant_of ''VIEW'' ''jdoe'' d)) domains
       @ map (\<lambda>d. Called Remove d (grant_of ''EDIT'' ''jdoe'' d)) domains"
proof -
  let ?added = "map (\<lambda>d. [record_of ''VIEW'' ''jdoe'' d @ [(''_merge'', YStr ''right_only'')]]) domains"
  let ?removed = "map (\<lambda>d. [record_of ''EDIT'' ''jdoe'' d @ [(''_merge'', YStr ''left_only'')]]) domains"
  have run: "update_permissions scenario_c
             = (Inr (?added, ?removed), snd (update_permissions scenario_c))"
    using scenario_c_first_run by (simp add: prod_eq_iff)
  have a: "concat (map2 (calls_of Add) domains ?added)
           = map (\<lambda>d. Called Add d (grant_of ''VIEW'' ''jdoe'' d)) domains"
    by code_simp
  have r: "concat (map2 (calls_of Remove) domains ?removed)
           = map (\<lambda>d. Called Remove d (grant_of ''EDIT'' ''jdoe'' d)) domains"
    by code_simp
  from grants_precede_revokes[of scenario_c] run
  have "effects update_permissions scenario_c
        = map Fetched domains @ [Wrote ''current_permissions.yaml'']
          @ concat (map2 (calls_of Add) domains ?added)
          @ concat (map2 (calls_of Remove) domains ?removed)"
    by blast
  with grants_precede_revokes[of scenario_c] a r show ?thesis by simp
qed

section \<open>A grant or revoke call that fails\<close>

text \<open>
  Claim C6, amended: a grant or revoke call that raises ends \<^verbatim>\<open>update_permissions\<close>.
  It is the last call issued, so the calls that remain in the batch are not
  attempted, and its exception is what the caller receives. Nothing is recorded
  about a failure: when \<^verbatim>\<open>update_permissions\<close> returns, its lists are the added and
  removed rows of the diff computed before the first call, whatever the client
  answered.
\<close>

theorem raising_call_ends_batch:
  "(\<forall>i v d a. i < length (effects update_permissions w) \<longrightarrow>
       effects update_permissions w ! i = Called v d a \<longrightarrow> reply w v d a = Raises \<longrightarrow>
       Suc i = length (effects update_permissions w) \<and>
       fst (update_permissions w) = Inl (ApplyError v d a)) \<and>
   (\<forall>p. fst (update_permissions w) = Inr p \<longrightarrow>
       (\<exists>ms. fst (get_permissions_diff_df w) = Inr ms \<and>
             p = (map (\<lambda>m. to_dict (select_merge ''right_only'' m)) ms,
                  map (\<lambda>m. to_dict (select_merge ''left_only'' m)) ms)))"
proof (intro conjI allI impI)
  fix i v d a
  assume "i < length (effects update_permissions w)"
    "effects update_permissions w ! i = Called v d a" "reply w v d a = Raises"
  moreover from this
  have "raised w (effects update_permissions w ! i) = Some (ApplyError v d a)"
    by (simp add: raised_def)
  ultimately have "Suc i = length (effects update_permissions w) \<and>
       fst (update_permissions w) = Inl (ApplyError v d a)"
    using stops_update_permissions unfolding stops_at_raise_def by blast
  then show "Suc i = length (effects update_permissions w)"
    and "fst (update_permissions w) = Inl (ApplyError v d a)" by simp_all
next
  fix p assume "fst (update_permissions w) = Inr p"
  then obtain w' where "update_permissions w = (Inr p, w')" by (cases "update_permissions w") auto
  then show "\<exists>ms. fst (get_permissions_diff_df w) = Inr ms \<and>
             p = (map (\<lambda>m. to_dict (select_merge ''right_only'' m)) ms,
                  map (\<lambda>m. to_dict (select_merge ''left_only'' m)) ms)"
    unfolding update_permissions_def Let_def
    by (elim io_bind_InrE) (auto simp: io_return_def)
qed

theorem raising_call_ends_batch_witness:
  "length (effects update_permissions global_grant_raises) = 8 \<and>
   effects update_permissions global_grant_raises ! 7
     = Called Add Global (grant_of ''VIEW'' ''jdoe'' Global) \<and>
   reply global_grant_raises Add Global (grant_of ''VIEW'' ''jdoe'' Global) = Raises \<and>
   fst (update_permissions global_grant_raises)
     = Inl (ApplyError Add Global (grant_of ''VIEW'' ''jdoe'' Global)) \<and>
   fst (update_permissions global_grant_fails)
     = Inr (map (\<lambda>m. to_dict (select_merge ''right_only'' m))
              (projr (fst (get_permissions_diff_df global_grant_fails))),
            map (\<lambda>m. to_dict (select_merge ''left_only'' m))
              (projr (fst (get_permissions_diff_df global_grant_fails))))"
proof -
  have l: "length (effects update_permissions global_grant_raises) = 8" by code_simp
  have c: "effects update_permissions global_grant_raises ! 7
           = Called Add Global (grant_of ''VIEW'' ''jdoe'' Global)" by code_simp
  have r: "reply global_grant_raises Add Global (grant_of ''VIEW'' ''jdoe'' Global) = Raises"
    by (simp add: global_grant_raises_def)
  have i: "7 < length (effects update_permissions global_grant_raises)" by (simp add: l)
  from raising_call_ends_batch[of global_grant_raises] i c r
  have 1: "fst (update_permissions global_grant_raises)
     = Inl (ApplyError Add Global (grant_of ''VIEW'' ''jdoe'' Global))"
    by blast
  have "\<not> isl (fst (update_permissions global_grant_fails))" by code_simp
  then obtain p where p: "fst (update_permissions global_grant_fails) = Inr p"
    by (cases "fst (update_permissions global_grant_fails)") simp_all
  with raising_call_ends_batch[of global_grant_fails] obtain ms where
    "fst (get_permissions_diff_df global_grant_fails) = Inr ms"
    and "p = (map (\<lambda>m. to_dict (select_merge ''right_only'' m)) ms,
              map (\<lambda>m. to_dict (select_merge ''left_only'' m)) ms)" by blast
  with p have 2: "fst (update_permissions global_grant_fails)
     = Inr (map (\<lambda>m. to_dict (select_merge ''right_only'' m))
              (projr (fst (get_permissions_diff_df global_grant_fails))),
            map (\<lambda>m. to_dict (select_merge ''left_only'' m))
              (projr (fst (get_permissions_diff_df global_grant_fails))))" by simp
  from l c r 1 2 show ?thesis by simp
qed

text \<open>
  Claim C6 as stated fails when the client's answer to the grant of the global domain
  is a failure. If the client raises, the run ends with the exception at that call:
  the grants of the five other domains and all six revokes, issued when nothing
  fails, are never attempted. If the client returns a failure instead, the run goes
  on, the permission is not granted, and the result is the same as when every call
  succeeds: the failure is recorded nowhere.
\<close>

theorem raising_call_counterexample:
  "effects update_permissions global_grant_raises
     = [Fetched Global, Fetched BuildPlan, Fetched Project, Fetched Deployment,
        Fetched DeploymentProject, Fetched DeploymentEnvironment,
        Wrote ''current_permissions.yaml'',
        Called Add Global [YStr ''VIEW'', YStr ''USER'', YStr ''jdoe'']] \<and>
   fst (update_permissions global_grant_raises)
     = Inl (ApplyError Add Global [YStr ''VIEW'', YStr ''USER'', YStr ''jdoe'']) \<and>
   length (effects update_permissions scenario_c) = 19 \<and>
   effects update_permissions scenario_c ! 8
     = Called Add BuildPlan
         [YStr ''VIEW'', YStr ''USER'', YStr ''jdoe'', YStr ''PROJECT-1'', YStr ''BUILD-PLAN-1''] \<and>
   fst (update_permissions global_grant_fails) = fst (update_permissions scenario_c) \<and>
   granted (snd (update_permissions global_grant_fails)) Global = [] \<and>
   granted (snd (update_permissions scenario_c)) Global
     = [[YStr ''VIEW'', YStr ''USER'', YStr ''jdoe'']]"
  by code_simp

section \<open>Running the reconciliation twice\<close>




end
